theory Spec2Isabelle
  imports Main
begin

section \<open>Values of the Python runtime\<close>

text \<open>
  A Python \<open>str\<close> is a sequence of Unicode code points: \<open>len\<close>, slicing and
  \<open>startswith\<close> count code points, and the source mentions U+FEFF and U+2022, which are
  no bytes. A string is therefore a list of code points; \<open>str ''abc''\<close> is an ASCII literal.
\<close>

type_synonym pystr = "nat list"

definition str :: "string \<Rightarrow> pystr" where
  "str s = map of_char s"

datatype error = ValueError | TypeError

text \<open>
  A Python float is a double: \<open>FloatVal m e\<close> is the number \<open>m * 2 ^ e\<close>. The model never
  computes with floats; it only carries them and tests them for truth.
\<close>

datatype pyfloat = FloatVal int int | FloatNegZero | FloatInf bool | FloatNaN

text \<open>What \<open>json.loads\<close> and the literal \<open>DEFAULT_STYLE_MAP\<close> put into a style record.\<close>

datatype pyval =
    PNone
  | PBool bool
  | PInt int
  | PFloat pyfloat
  | PStr pystr
  | PList "pyval list"
  | PDict "(pystr \<times> pyval) list"

type_synonym pydict = "(pystr \<times> pyval) list"

text \<open>The style rule table, \<open>rules: Dict\<close>: style name to style record.\<close>

type_synonym rules = "(pystr \<times> pydict) list"

text \<open>Truth value of an object, as \<open>if spec.get(k):\<close> tests it.\<close>

fun truthy :: "pyval \<Rightarrow> bool" where
  "truthy PNone = False"
| "truthy (PBool b) = b"
| "truthy (PInt i) = (i \<noteq> 0)"
| "truthy (PFloat f) = (case f of FloatVal m e \<Rightarrow> m \<noteq> 0 | FloatNegZero \<Rightarrow> False | _ \<Rightarrow> True)"
| "truthy (PStr s) = (s \<noteq> [])"
| "truthy (PList xs) = (xs \<noteq> [])"
| "truthy (PDict kvs) = (kvs \<noteq> [])"

text \<open>\<open>x in d\<close> hashes \<open>x\<close>; lists and dicts are unhashable and raise TypeError.\<close>

fun hashable :: "pyval \<Rightarrow> bool" where
  "hashable (PList xs) = False"
| "hashable (PDict kvs) = False"
| "hashable v = True"

text \<open>
  What the source uses and the repository does not hold: the Unicode decimal-digit table of
  the interpreter (consulted for code points from 128 on; it decides \<open>\d\<close> and what
  \<open>int\<close> accepts), the interpreter's limit on the digits of a decimal string
  (\<open>sys.get_int_max_str_digits()\<close>, 0 for no limit), and python-docx's length constructors
  \<open>Pt\<close> and \<open>Cm\<close>, which raise on a value that is no number.
\<close>

record env =
  uni_decimal :: "nat \<Rightarrow> nat option"
  int_max_str_digits :: nat
  Pt :: "pyval \<Rightarrow> error + int"
  Cm :: "pyval \<Rightarrow> error + int"

section \<open>String operations\<close>

text \<open>\<open>str.isspace\<close> of one code point; \<open>\s\<close> of a \<open>str\<close> pattern is the same set.\<close>

definition isspace :: "nat \<Rightarrow> bool" where
  "isspace c \<longleftrightarrow>
     (9 \<le> c \<and> c \<le> 13) \<or> (28 \<le> c \<and> c \<le> 32) \<or> c = 133 \<or> c = 160 \<or> c = 5760 \<or>
     (8192 \<le> c \<and> c \<le> 8202) \<or> c = 8232 \<or> c = 8233 \<or> c = 8239 \<or> c = 8287 \<or> c = 12288"

text \<open>The decimal value of a code point; \<open>\d\<close> matches where there is one.\<close>

definition decimal_value :: "env \<Rightarrow> nat \<Rightarrow> nat option" where
  "decimal_value e c =
     (if c < 128 then (if 48 \<le> c \<and> c \<le> 57 then Some (c - 48) else None)
      else (case uni_decimal e c of
              Some d \<Rightarrow> if d < 10 then Some d else None
            | None \<Rightarrow> None))"

definition isdecimal :: "env \<Rightarrow> nat \<Rightarrow> bool" where
  "isdecimal e c \<longleftrightarrow> decimal_value e c \<noteq> None"

definition startswith :: "pystr \<Rightarrow> pystr \<Rightarrow> bool" where
  "startswith text pref \<longleftrightarrow> take (length pref) text = pref"

text \<open>\<open>s.rstrip(chars)\<close>\<close>

definition rstrip_chars :: "pystr \<Rightarrow> pystr \<Rightarrow> pystr" where
  "rstrip_chars chars s = rev (dropWhile (\<lambda>c. c \<in> set chars) (rev s))"

text \<open>\<open>s.strip()\<close>\<close>

definition strip :: "pystr \<Rightarrow> pystr" where
  "strip s = rev (dropWhile isspace (rev (dropWhile isspace s)))"

text \<open>\<open>s[i:j]\<close> for \<open>0 \<le> i \<le> j\<close>\<close>

definition slice :: "nat \<Rightarrow> nat \<Rightarrow> pystr \<Rightarrow> pystr" where
  "slice i j s = take (j - i) (drop i s)"

text \<open>
  \<open>s.upper()\<close> on the ASCII letters. The source only asks whether the result starts with
  \<open>RGB(\<close>, and no code point other than the ASCII letters r, g, b has an uppercase form
  that begins with R, G or B, so the other code points are left as they are.
\<close>

definition upper :: "pystr \<Rightarrow> pystr" where
  "upper s = map (\<lambda>c. if 97 \<le> c \<and> c \<le> 122 then c - 32 else c) s"

text \<open>\<open>s.split(sep)\<close> for a one-character separator\<close>

fun split :: "nat \<Rightarrow> pystr \<Rightarrow> pystr list" where
  "split sep [] = [[]]"
| "split sep (c # cs) =
     (if c = sep then [] # split sep cs
      else (case split sep cs of [] \<Rightarrow> [[c]] | p # ps \<Rightarrow> (c # p) # ps))"

section \<open>The builtin int(s, base)\<close>

text \<open>
  \<open>int\<close> first turns every non-ASCII whitespace into a space and every non-ASCII decimal
  digit into its ASCII digit (any other code point from 127 on into \<open>?\<close>), then reads:
  ASCII whitespace, a sign, for base 16 an optional \<open>0x\<close> (and one underscore), digits
  with single underscores between them, ASCII whitespace. Everything else is ValueError.
\<close>

definition ascii_space :: "nat \<Rightarrow> bool" where
  "ascii_space c \<longleftrightarrow> (9 \<le> c \<and> c \<le> 13) \<or> c = 32"

definition to_ascii :: "env \<Rightarrow> nat \<Rightarrow> nat" where
  "to_ascii e c =
     (if c < 127 then c
      else if isspace c then 32
      else (case decimal_value e c of Some d \<Rightarrow> 48 + d | None \<Rightarrow> 63))"

definition digit_value :: "nat \<Rightarrow> nat option" where
  "digit_value c =
     (if 48 \<le> c \<and> c \<le> 57 then Some (c - 48)
      else if 97 \<le> c \<and> c \<le> 122 then Some (c - 87)
      else if 65 \<le> c \<and> c \<le> 90 then Some (c - 55)
      else None)"

definition is_digit :: "nat \<Rightarrow> nat \<Rightarrow> bool" where
  "is_digit base c \<longleftrightarrow> (case digit_value c of Some d \<Rightarrow> d < base | None \<Rightarrow> False)"

fun double_underscore :: "pystr \<Rightarrow> bool" where
  "double_underscore (a # b # cs) = ((a = 95 \<and> b = 95) \<or> double_underscore (b # cs))"
| "double_underscore cs = False"

definition digits_value :: "nat \<Rightarrow> pystr \<Rightarrow> int" where
  "digits_value base ds = foldl (\<lambda>acc c. acc * int base + int (case digit_value c of Some d \<Rightarrow> d | None \<Rightarrow> 0)) 0 ds"

definition skip_sign :: "pystr \<Rightarrow> bool \<times> pystr" where
  "skip_sign a =
     (case a of
        [] \<Rightarrow> (False, a)
      | c # r \<Rightarrow> if c = 43 then (False, r) else if c = 45 then (True, r) else (False, a))"

definition skip_base_prefix :: "nat \<Rightarrow> pystr \<Rightarrow> pystr" where
  "skip_base_prefix base a =
     (case a of
        z # x # r \<Rightarrow>
          if base = 16 \<and> z = 48 \<and> (x = 120 \<or> x = 88)
          then (case r of [] \<Rightarrow> r | u # r' \<Rightarrow> if u = 95 then r' else r)
          else a
      | _ \<Rightarrow> a)"

definition py_int :: "env \<Rightarrow> nat \<Rightarrow> pystr \<Rightarrow> error + int" where
  "py_int e base s =
     (let a = dropWhile ascii_space (map (to_ascii e) s);
          neg = fst (skip_sign a);
          b = skip_base_prefix base (snd (skip_sign a));
          body = takeWhile (\<lambda>c. is_digit base c \<or> c = 95) b;
          rest = dropWhile (\<lambda>c. is_digit base c \<or> c = 95) b;
          digits = filter (\<lambda>c. c \<noteq> 95) body
      in if body = [] \<or> hd body = 95 \<or> last body = 95 \<or> double_underscore body then Inl ValueError
         else if base = 10 \<and> 640 < length digits \<and> 0 < int_max_str_digits e
                 \<and> int_max_str_digits e < length digits then Inl ValueError
         else if dropWhile ascii_space rest \<noteq> [] then Inl ValueError
         else Inr (if neg then - digits_value base digits else digits_value base digits))"

section \<open>The colour resolver\<close>

type_synonym rgbcolor = "int \<times> int \<times> int"

text \<open>python-docx's \<open>RGBColor(r, g, b)\<close>: ValueError unless each is in 0..255.\<close>

definition RGBColor :: "int \<Rightarrow> int \<Rightarrow> int \<Rightarrow> error + rgbcolor" where
  "RGBColor r g b =
     (if 0 \<le> r \<and> r \<le> 255 \<and> 0 \<le> g \<and> g \<le> 255 \<and> 0 \<le> b \<and> b \<le> 255
      then Inr (r, g, b) else Inl ValueError)"

text \<open>\<open>[f(x) for x in xs]\<close> where \<open>f\<close> may raise: the first raise ends it.\<close>

fun map_raise :: "('a \<Rightarrow> error + 'b) \<Rightarrow> 'a list \<Rightarrow> error + 'b list" where
  "map_raise f [] = Inr []"
| "map_raise f (x # xs) =
     (case f x of
        Inl e \<Rightarrow> Inl e
      | Inr y \<Rightarrow> (case map_raise f xs of Inl e \<Rightarrow> Inl e | Inr ys \<Rightarrow> Inr (y # ys)))"

text \<open>
  The body of the \<open>try\<close> of \<open>_rgb\<close>: \<open>parts = color_str[4:-1].split(",")\<close>, then
  \<open>r,g,b = [int(x.strip()) for x in parts]\<close> (the unpacking raises ValueError unless there
  are three) and \<open>RGBColor(r,g,b)\<close>.
\<close>

definition rgb_try :: "env \<Rightarrow> pystr \<Rightarrow> error + rgbcolor" where
  "rgb_try e color_str =
     (let parts = split 44 (butlast (drop 4 color_str)) in
      case map_raise (\<lambda>x. py_int e 10 (strip x)) parts of
        Inl err \<Rightarrow> Inl err
      | Inr [r, g, b] \<Rightarrow> RGBColor r g b
      | Inr _ \<Rightarrow> Inl ValueError)"

text \<open>
  \<open>_rgb\<close>. The first branch has no \<open>try\<close>: what \<open>int(.., 16)\<close> or \<open>RGBColor\<close> raises
  there leaves the function. In the second branch \<open>except: pass\<close> swallows every raise
  and control falls through to the final \<open>return RGBColor(0,0,0)\<close>.
\<close>

definition rgb :: "env \<Rightarrow> pyval \<Rightarrow> error + rgbcolor" where
  "rgb e color =
     (case color of
        PStr color_str \<Rightarrow>
          if startswith color_str (str ''#'') \<and> length color_str = 7 then
            (case py_int e 16 (slice 1 3 color_str) of
               Inl err \<Rightarrow> Inl err
             | Inr r \<Rightarrow>
                 (case py_int e 16 (slice 3 5 color_str) of
                    Inl err \<Rightarrow> Inl err
                  | Inr g \<Rightarrow>
                      (case py_int e 16 (slice 5 7 color_str) of
                         Inl err \<Rightarrow> Inl err
                       | Inr b \<Rightarrow> RGBColor r g b)))
          else if startswith (upper color_str) (str ''RGB('') then
            (case rgb_try e color_str of
               Inr c \<Rightarrow> Inr c
             | Inl err \<Rightarrow> RGBColor 0 0 0)
          else RGBColor 0 0 0
      | _ \<Rightarrow> RGBColor 0 0 0)"

section \<open>The line classifier\<close>

definition BOM :: nat where
  "BOM = 65279"

text \<open>
  The first three lines of \<open>_detect_and_style_line\<close>:
  \<open>text = (line or "").rstrip("\r\n")\<close>, then one leading U+FEFF is cut.
\<close>

definition normalize :: "pystr option \<Rightarrow> pystr" where
  "normalize line =
     (let text = rstrip_chars [13, 10] (case line of None \<Rightarrow> [] | Some l \<Rightarrow> l)
      in if startswith text [BOM] then drop 1 text else text)"

definition heading_markers :: "(pystr \<times> pystr list) list" where
  "heading_markers =
     [(str ''Heading 1'', [str ''H1:'', str ''# '']),
      (str ''Heading 2'', [str ''H2:'', str ''## '']),
      (str ''Heading 3'', [str ''H3:'', str ''### '']),
      (str ''Heading 4'', [str ''H4:'', str ''#### ''])]"

text \<open>The inner loop \<open>for pref in prefixes\<close>; a hit is the \<open>return\<close>.\<close>

fun scan_prefixes :: "pystr \<Rightarrow> pystr \<Rightarrow> pystr list \<Rightarrow> (pystr \<times> pystr) option" where
  "scan_prefixes text style_name [] = None"
| "scan_prefixes text style_name (pref # prefixes) =
     (if startswith text pref then Some (style_name, strip (drop (length pref) text))
      else scan_prefixes text style_name prefixes)"

text \<open>The outer loop \<open>for style_name, prefixes in heading_markers\<close>.\<close>

fun scan_headings :: "pystr \<Rightarrow> (pystr \<times> pystr list) list \<Rightarrow> (pystr \<times> pystr) option" where
  "scan_headings text [] = None"
| "scan_headings text ((style_name, prefixes) # markers) =
     (case scan_prefixes text style_name prefixes of
        Some hit \<Rightarrow> Some hit
      | None \<Rightarrow> scan_headings text markers)"

definition ascii_letter :: "nat \<Rightarrow> bool" where
  "ascii_letter c \<longleftrightarrow> (65 \<le> c \<and> c \<le> 90) \<or> (97 \<le> c \<and> c \<le> 122)"

text \<open>The class \<open>[\.\)]\<close>\<close>

definition dot_or_paren :: "nat \<Rightarrow> bool" where
  "dot_or_paren c \<longleftrightarrow> c = 46 \<or> c = 41"

text \<open>The second alternative of \<open>numbered_re\<close>, \<open>[A-Za-z][\.\)]\s\<close>: the length it matches.\<close>

definition letter_alternative :: "pystr \<Rightarrow> nat option" where
  "letter_alternative text =
     (case text of
        l # p # w # _ \<Rightarrow> if ascii_letter l \<and> dot_or_paren p \<and> isspace w then Some 3 else None
      | _ \<Rightarrow> None)"

text \<open>
  \<open>re.match(numbered_re, text)\<close> for \<open>^(\d+[\.\)]\s|[A-Za-z][\.\)]\s)\<close>: the length of the
  match at the start of the text, if any. \<open>\d+\<close> is greedy; giving a digit back never
  helps, since the next class holds no digit, so the first alternative matches exactly
  when the longest run of digits is not empty and a dot or parenthesis and a whitespace
  follow it. The second alternative is tried when the first fails.
\<close>

definition numbered_re_match :: "env \<Rightarrow> pystr \<Rightarrow> nat option" where
  "numbered_re_match e text =
     (case dropWhile (isdecimal e) text of
        p # w # _ \<Rightarrow>
          if takeWhile (isdecimal e) text \<noteq> [] \<and> dot_or_paren p \<and> isspace w
          then Some (length (takeWhile (isdecimal e) text) + 2)
          else letter_alternative text
      | _ \<Rightarrow> letter_alternative text)"

text \<open>
  \<open>re.sub(numbered_re, "", text)\<close>: the pattern is anchored at the start of the string
  (no MULTILINE flag), so at most the one match at position 0 is replaced.
\<close>

definition re_sub_numbered :: "env \<Rightarrow> pystr \<Rightarrow> pystr" where
  "re_sub_numbered e text =
     (case numbered_re_match e text of None \<Rightarrow> text | Some n \<Rightarrow> drop n text)"

definition bullet_markers :: "pystr list" where
  "bullet_markers = [str ''- '', str ''* '', [8226, 32]]"

text \<open>
  The decision of \<open>_detect_and_style_line\<close>: every branch of the source ends in
  \<open>_add_styled_paragraph(doc, clean, style, rules, counters); return\<close>, and this function
  gives the \<open>(style, clean)\<close> of that call.
\<close>

definition detect_line :: "env \<Rightarrow> pystr option \<Rightarrow> rules \<Rightarrow> pystr \<times> pystr" where
  "detect_line e line rules =
     (let text = normalize line in
      case scan_headings text heading_markers of
        Some hit \<Rightarrow> hit
      | None \<Rightarrow>
          if numbered_re_match e text \<noteq> None then
            (str ''Normal'', strip (re_sub_numbered e text))
          else if list_ex (startswith text) bullet_markers then
            (if map_of rules (str ''Normal Bullet'') \<noteq> None then str ''Normal Bullet''
             else str ''List Paragraph Bullet Points'',
             if 2 \<le> length text then strip (drop 2 text) else [])
          else (str ''Normal'', text))"


section \<open>Statements that mutate and may raise\<close>

text \<open>
  Python mutates the paragraph in place, and a raise leaves what was already assigned. A
  statement is therefore a function from the state to the exception raised, if any, and
  the state it leaves.
\<close>

type_synonym 'a step = "'a \<Rightarrow> error option \<times> 'a"

text \<open>A sequence of statements: the first raise ends it.\<close>

fun run_steps :: "'a step list \<Rightarrow> 'a step" where
  "run_steps [] s = (None, s)"
| "run_steps (f # fs) s =
     (case f s of (Some err, s') \<Rightarrow> (Some err, s') | (None, s') \<Rightarrow> run_steps fs s')"

text \<open>\<open>for x in xs: body\<close>, the body mutating \<open>x\<close>\<close>

fun for_each :: "'a step \<Rightarrow> 'a list step" where
  "for_each body [] = (None, [])"
| "for_each body (x # xs) =
     (case body x of
        (Some err, x') \<Rightarrow> (Some err, x' # xs)
      | (None, x') \<Rightarrow> (case for_each body xs of (err, xs') \<Rightarrow> (err, x' # xs')))"

text \<open>\<open>if key in spec: ... spec[key] ...\<close>\<close>

definition when_present :: "pydict \<Rightarrow> pystr \<Rightarrow> (pyval \<Rightarrow> 'a step) \<Rightarrow> 'a step" where
  "when_present spec key body s = (case map_of spec key of None \<Rightarrow> (None, s) | Some v \<Rightarrow> body v s)"

text \<open>\<open>if spec.get(key): ...\<close>\<close>

definition when_truthy :: "pydict \<Rightarrow> pystr \<Rightarrow> 'a step \<Rightarrow> 'a step" where
  "when_truthy spec key body s =
     (case map_of spec key of
        None \<Rightarrow> (None, s)
      | Some v \<Rightarrow> if truthy v then body s else (None, s))"

text \<open>An assignment, and an assignment of a value whose computation may raise.\<close>

definition assign :: "('a \<Rightarrow> 'a) \<Rightarrow> 'a step" where
  "assign f s = (None, f s)"

definition assign_result :: "error + 'v \<Rightarrow> ('v \<Rightarrow> 'a \<Rightarrow> 'a) \<Rightarrow> 'a step" where
  "assign_result r f s = (case r of Inl err \<Rightarrow> (Some err, s) | Inr v \<Rightarrow> (None, f v s))"

section \<open>The paragraph styler\<close>

text \<open>
  A python-docx paragraph and its runs, as far as the source writes them: each attribute
  is \<open>None\<close> until it is assigned. Lengths are in EMU, as \<open>Pt\<close> and \<open>Cm\<close> give them.
\<close>

datatype wd_align = LEFT | CENTER | RIGHT | JUSTIFY

record run =
  run_text :: pystr
  font_name :: "pyval option"
  font_size :: "int option"
  font_bold :: "pyval option"
  font_italic :: "pyval option"
  font_color :: "rgbcolor option"

record docx_paragraph =
  runs :: "run list"
  alignment :: "wd_align option"
  line_spacing :: "pyval option"
  space_before :: "int option"
  space_after :: "int option"
  left_indent :: "int option"
  first_line_indent :: "int option"
  keep_with_next :: "bool option"
  keep_together :: "bool option"

definition new_run :: "pystr \<Rightarrow> run" where
  "new_run t =
     \<lparr>run_text = t, font_name = None, font_size = None, font_bold = None, font_italic = None,
      font_color = None\<rparr>"

definition paragraph_text :: "docx_paragraph \<Rightarrow> pystr" where
  "paragraph_text p = concat (map run_text (runs p))"

definition align_map :: "(pystr \<times> wd_align) list" where
  "align_map =
     [(str ''Left'', LEFT), (str ''Center'', CENTER), (str ''Right'', RIGHT),
      (str ''Justify'', JUSTIFY)]"

text \<open>
  \<open>if spec.get("alignment") in align_map: p.alignment = align_map[spec["alignment"]]\<close>.
  The membership test hashes the value; the keys of \<open>align_map\<close> are strings, so only a
  string can be among them, and the \<open>None\<close> of an absent key is not.
\<close>

definition set_alignment :: "pydict \<Rightarrow> docx_paragraph step" where
  "set_alignment spec p =
     (case map_of spec (str ''alignment'') of
        None \<Rightarrow> (None, p)
      | Some v \<Rightarrow>
          if \<not> hashable v then (Some TypeError, p)
          else (case v of
                  PStr s \<Rightarrow>
                    (case map_of align_map s of
                       None \<Rightarrow> (None, p)
                     | Some a \<Rightarrow> (None, p\<lparr>alignment := Some a\<rparr>))
                | _ \<Rightarrow> (None, p)))"

text \<open>The paragraph-level statements of \<open>_apply_paragraph_style\<close>, in the source's order.\<close>

definition paragraph_steps :: "env \<Rightarrow> pydict \<Rightarrow> docx_paragraph step list" where
  "paragraph_steps e spec =
     [set_alignment spec,
      when_present spec (str ''line_spacing'') (\<lambda>v. assign (\<lambda>p. p\<lparr>line_spacing := Some v\<rparr>)),
      when_present spec (str ''spacing_before_pt'')
        (\<lambda>v. assign_result (Pt e v) (\<lambda>n p. p\<lparr>space_before := Some n\<rparr>)),
      when_present spec (str ''spacing_after_pt'')
        (\<lambda>v. assign_result (Pt e v) (\<lambda>n p. p\<lparr>space_after := Some n\<rparr>)),
      when_present spec (str ''indent_left_cm'')
        (\<lambda>v. assign_result (Cm e v) (\<lambda>n p. p\<lparr>left_indent := Some n\<rparr>)),
      when_present spec (str ''indent_hanging_cm'')
        (\<lambda>v. assign_result (Cm e v) (\<lambda>n p. p\<lparr>first_line_indent := Some (- n)\<rparr>)),
      when_truthy spec (str ''keep_with_next'') (assign (\<lambda>p. p\<lparr>keep_with_next := Some True\<rparr>)),
      when_truthy spec (str ''keep_lines_together'')
        (assign (\<lambda>p. p\<lparr>keep_together := Some True\<rparr>))]"

text \<open>The body of \<open>for r in runs\<close>.\<close>

definition font_steps :: "env \<Rightarrow> pydict \<Rightarrow> run step list" where
  "font_steps e spec =
     [when_present spec (str ''font_name'') (\<lambda>v. assign (\<lambda>r. r\<lparr>font_name := Some v\<rparr>)),
      when_present spec (str ''font_size_pt'')
        (\<lambda>v. assign_result (Pt e v) (\<lambda>n r. r\<lparr>font_size := Some n\<rparr>)),
      when_present spec (str ''bold'') (\<lambda>v. assign (\<lambda>r. r\<lparr>font_bold := Some v\<rparr>)),
      when_present spec (str ''italic'') (\<lambda>v. assign (\<lambda>r. r\<lparr>font_italic := Some v\<rparr>)),
      when_present spec (str ''color'')
        (\<lambda>v. assign_result (rgb e v) (\<lambda>c r. r\<lparr>font_color := Some c\<rparr>))]"

text \<open>\<open>p.runs or [p.add_run("")]\<close>: a paragraph without runs gets an empty one.\<close>

definition runs_or_new :: "docx_paragraph \<Rightarrow> run list" where
  "runs_or_new p = (if runs p = [] then [new_run []] else runs p)"

definition style_runs :: "env \<Rightarrow> pydict \<Rightarrow> docx_paragraph step" where
  "style_runs e spec p =
     (case for_each (run_steps (font_steps e spec)) (runs_or_new p) of
        (err, rs) \<Rightarrow> (err, p\<lparr>runs := rs\<rparr>))"

definition apply_paragraph_style :: "env \<Rightarrow> pydict \<Rightarrow> docx_paragraph step" where
  "apply_paragraph_style e spec = run_steps (paragraph_steps e spec @ [style_runs e spec])"

text \<open>The keys \<open>_apply_paragraph_style\<close> reads.\<close>

definition known_keys :: "pystr list" where
  "known_keys =
     [str ''alignment'', str ''line_spacing'', str ''spacing_before_pt'', str ''spacing_after_pt'',
      str ''indent_left_cm'', str ''indent_hanging_cm'', str ''keep_with_next'',
      str ''keep_lines_together'', str ''font_name'', str ''font_size_pt'', str ''bold'',
      str ''italic'', str ''color'']"

text \<open>
  A style record on which no statement of the styler raises: its alignment is hashable, the
  lengths it gives convert, and its colour resolves.
\<close>

definition converts :: "(pyval \<Rightarrow> error + 'v) \<Rightarrow> pydict \<Rightarrow> pystr \<Rightarrow> bool" where
  "converts f spec key = (case map_of spec key of None \<Rightarrow> True | Some v \<Rightarrow> isl (f v) = False)"

definition spec_ok :: "env \<Rightarrow> pydict \<Rightarrow> bool" where
  "spec_ok e spec \<longleftrightarrow>
     converts (\<lambda>v. if hashable v then Inr v else Inl TypeError) spec (str ''alignment'') \<and>
     converts (Pt e) spec (str ''spacing_before_pt'') \<and>
     converts (Pt e) spec (str ''spacing_after_pt'') \<and>
     converts (Cm e) spec (str ''indent_left_cm'') \<and>
     converts (Cm e) spec (str ''indent_hanging_cm'') \<and>
     converts (Pt e) spec (str ''font_size_pt'') \<and>
     converts (rgb e) spec (str ''color'')"

section \<open>The document builder\<close>

type_synonym document = "docx_paragraph list"

text \<open>A Python dict keeps its keys in the order of their first assignment.\<close>

type_synonym counters = "(pystr \<times> int) list"

fun dict_set :: "('k \<times> 'v) list \<Rightarrow> 'k \<Rightarrow> 'v \<Rightarrow> ('k \<times> 'v) list" where
  "dict_set [] k v = [(k, v)]"
| "dict_set ((k', v') # kvs) k v =
     (if k' = k then (k, v) # kvs else (k', v') # dict_set kvs k v)"

text \<open>\<open>counters[style_name] = counters.get(style_name, 0) + 1\<close>\<close>

definition increment :: "counters \<Rightarrow> pystr \<Rightarrow> counters" where
  "increment counters style_name =
     dict_set counters style_name
       ((case map_of counters style_name of None \<Rightarrow> 0 | Some n \<Rightarrow> n) + 1)"

text \<open>\<open>doc.add_paragraph(text)\<close>: the new paragraph has one run, or none for an empty text.\<close>

definition add_paragraph :: "pystr \<Rightarrow> docx_paragraph" where
  "add_paragraph t =
     \<lparr>runs = (if t = [] then [] else [new_run t]), alignment = None, line_spacing = None,
      space_before = None, space_after = None, left_indent = None, first_line_indent = None,
      keep_with_next = None, keep_together = None\<rparr>"

text \<open>
  \<open>_add_styled_paragraph\<close>: the paragraph is appended before it is styled, and the
  counter is incremented after, so a raise of the styler leaves the paragraph uncounted.
\<close>

definition add_styled_paragraph ::
    "env \<Rightarrow> pystr \<Rightarrow> pystr \<Rightarrow> rules \<Rightarrow> (document \<times> counters) step" where
  "add_styled_paragraph e t style_name rules = (\<lambda>(doc, counters).
     case apply_paragraph_style e (case map_of rules style_name of None \<Rightarrow> [] | Some spec \<Rightarrow> spec)
            (add_paragraph t) of
       (Some err, p) \<Rightarrow> (Some err, (doc @ [p], counters))
     | (None, p) \<Rightarrow> (None, (doc @ [p], increment counters style_name)))"

definition detect_and_style_line ::
    "env \<Rightarrow> pystr option \<Rightarrow> rules \<Rightarrow> (document \<times> counters) step" where
  "detect_and_style_line e line rules =
     (case detect_line e line rules of
        (style_name, clean) \<Rightarrow> add_styled_paragraph e clean style_name rules)"

text \<open>
  The part of \<open>format_doc\<close> from \<open># Build output\<close> on: the loop over the lines, starting
  from an empty document and empty counters; the response carries the document and the
  counters when nothing was raised.
\<close>

definition build_output :: "env \<Rightarrow> rules \<Rightarrow> pystr list \<Rightarrow> error option \<times> document \<times> counters" where
  "build_output e rules lines =
     run_steps (map (\<lambda>line. detect_and_style_line e (Some line) rules) lines) ([], [])"

definition format_doc :: "env \<Rightarrow> rules \<Rightarrow> pystr list \<Rightarrow> error + document \<times> counters" where
  "format_doc e rules lines =
     (case build_output e rules lines of
        (Some err, out) \<Rightarrow> Inl err
      | (None, out) \<Rightarrow> Inr out)"

text \<open>
  \<open>counters.get(style_name, 0)\<close>, the count the usage report gives a style; and a rule
  table each of whose records the styler applies without raising.
\<close>

definition count_of :: "counters \<Rightarrow> pystr \<Rightarrow> int" where
  "count_of counters style_name = (case map_of counters style_name of None \<Rightarrow> 0 | Some n \<Rightarrow> n)"

definition rules_ok :: "env \<Rightarrow> rules \<Rightarrow> bool" where
  "rules_ok e rules \<longleftrightarrow> list_all (\<lambda>(style_name, spec). spec_ok e spec) rules"

section \<open>The components as the specification words them\<close>

text \<open>
  Definitions written from the specification's sentences, not from the source, to compare
  the source's functions with. None of them calls a function of the model of the source;
  they share with it only the tables of the interpreter (which code points are
  whitespace, decimal digits, ASCII letters) and the builtins \<open>int\<close> and \<open>split\<close>.
\<close>

text \<open>``trimmed of surrounding whitespace''\<close>

fun spec_trim_left :: "pystr \<Rightarrow> pystr" where
  "spec_trim_left [] = []"
| "spec_trim_left (c # cs) = (if isspace c then spec_trim_left cs else c # cs)"

fun spec_trim_right :: "pystr \<Rightarrow> pystr" where
  "spec_trim_right [] = []"
| "spec_trim_right (c # cs) =
     (if spec_trim_right cs = [] \<and> isspace c then [] else c # spec_trim_right cs)"

definition spec_trim :: "pystr \<Rightarrow> pystr" where
  "spec_trim s = spec_trim_right (spec_trim_left s)"

text \<open>
  ``Normalize: strip trailing newline/carriage-return characters; strip a leading
  byte-order-mark if present on the text.''
\<close>

fun spec_strip_line_end :: "pystr \<Rightarrow> pystr" where
  "spec_strip_line_end [] = []"
| "spec_strip_line_end (c # cs) =
     (if spec_strip_line_end cs = [] \<and> (c = 10 \<or> c = 13) then [] else c # spec_strip_line_end cs)"

definition spec_normalize :: "pystr \<Rightarrow> pystr" where
  "spec_normalize raw =
     (case spec_strip_line_end raw of
        [] \<Rightarrow> []
      | c # cs \<Rightarrow> if c = 65279 then cs else c # cs)"

text \<open>What follows a prefix, for a text that begins with it.\<close>

fun spec_after_prefix :: "pystr \<Rightarrow> pystr \<Rightarrow> pystr option" where
  "spec_after_prefix [] t = Some t"
| "spec_after_prefix (c # cs) [] = None"
| "spec_after_prefix (c # cs) (x # xs) = (if c = x then spec_after_prefix cs xs else None)"

text \<open>
  A rule gives the style name and the cleaned text of a line it applies to.
  ``Heading detection: ... the matched prefix is removed and the remainder trimmed of
  surrounding whitespace; style name is the corresponding Heading N.''
\<close>

type_synonym spec_rule = "pystr \<Rightarrow> (pystr \<times> pystr) option"

definition spec_heading :: "pystr \<Rightarrow> pystr \<Rightarrow> spec_rule" where
  "spec_heading style_name pref t =
     (case spec_after_prefix pref t of
        None \<Rightarrow> None
      | Some remainder \<Rightarrow> Some (style_name, spec_trim remainder))"


fun spec_skip_digits :: "env \<Rightarrow> pystr \<Rightarrow> pystr" where
  "spec_skip_digits e [] = []"
| "spec_skip_digits e (c # cs) = (if isdecimal e c then spec_skip_digits e cs else c # cs)"

definition spec_token_end :: "(nat \<Rightarrow> bool) \<Rightarrow> pystr \<Rightarrow> pystr option" where
  "spec_token_end space t =
     (case t of
        p # w # remainder \<Rightarrow> if (p = 46 \<or> p = 41) \<and> space w then Some remainder else None
      | _ \<Rightarrow> None)"

definition spec_numbered :: "(nat \<Rightarrow> bool) \<Rightarrow> env \<Rightarrow> spec_rule" where
  "spec_numbered space e t =
     (case t of
        [] \<Rightarrow> None
      | c # cs \<Rightarrow>
          (case (if isdecimal e c then spec_token_end space (spec_skip_digits e cs)
                 else if ascii_letter c then spec_token_end space cs
                 else None) of
             None \<Rightarrow> None
           | Some remainder \<Rightarrow> Some (str ''Normal'', spec_trim remainder)))"

text \<open>
  ``Bullet detection: a line matches if it begins with "- ", "* ", or U+2022 and a space.
  On match, the first two characters are removed and the remainder trimmed. Style name
  selection prefers Normal Bullet if that key exists in the active rule table, else falls
  back to List Paragraph Bullet Points.''
\<close>

definition spec_bullet :: "rules \<Rightarrow> spec_rule" where
  "spec_bullet rules t =
     (if spec_after_prefix (str ''- '') t \<noteq> None \<or> spec_after_prefix (str ''* '') t \<noteq> None \<or>
         spec_after_prefix [8226, 32] t \<noteq> None
      then Some (if str ''Normal Bullet'' \<in> fst ` set rules then str ''Normal Bullet''
                 else str ''List Paragraph Bullet Points'',
                 spec_trim (drop 2 t))
      else None)"

text \<open>
  ``Classification order (first match wins)'': the headings 1 to 4, each by its tag
  prefix and then by its hash prefix, then the numbered list, then the bullet.
  ``Default: if no rule matched, style name is Normal and cleaned text is the normalized
  (but otherwise unmodified) line.''
\<close>

definition spec_chain :: "(nat \<Rightarrow> bool) \<Rightarrow> env \<Rightarrow> rules \<Rightarrow> spec_rule list" where
  "spec_chain space e rules =
     [spec_heading (str ''Heading 1'') (str ''H1:''), spec_heading (str ''Heading 1'') (str ''# ''),
      spec_heading (str ''Heading 2'') (str ''H2:''), spec_heading (str ''Heading 2'') (str ''## ''),
      spec_heading (str ''Heading 3'') (str ''H3:''), spec_heading (str ''Heading 3'') (str ''### ''),
      spec_heading (str ''Heading 4'') (str ''H4:''), spec_heading (str ''Heading 4'') (str ''#### ''),
      spec_numbered space e, spec_bullet rules]"

fun spec_first_match :: "spec_rule list \<Rightarrow> pystr \<Rightarrow> pystr \<times> pystr" where
  "spec_first_match [] t = (str ''Normal'', t)"
| "spec_first_match (r # rs) t =
     (case r t of Some hit \<Rightarrow> hit | None \<Rightarrow> spec_first_match rs t)"

definition spec_classify :: "(nat \<Rightarrow> bool) \<Rightarrow> env \<Rightarrow> rules \<Rightarrow> pystr \<Rightarrow> pystr \<times> pystr" where
  "spec_classify space e rules raw = spec_first_match (spec_chain space e rules) (spec_normalize raw)"

text \<open>
  The forms of a colour expression: six hex digits after the marker \<open>#\<close>, with the value
  of a pair of them; \<open>RGB(r,g,b)\<close> with three decimal integers; and a body that splits at
  its commas into three fields, each of which \<open>int\<close> reads, once trimmed of surrounding
  whitespace, as an integer in 0..255.
\<close>

definition hex_form :: "pystr \<Rightarrow> bool" where
  "hex_form s \<longleftrightarrow> length s = 7 \<and> spec_after_prefix (str ''#'') s \<noteq> None \<and> list_all (is_digit 16) (drop 1 s)"

definition hex_pair :: "nat \<Rightarrow> nat \<Rightarrow> int" where
  "hex_pair a b = int (16 * (case digit_value a of Some d \<Rightarrow> d | None \<Rightarrow> 0)
                        + (case digit_value b of Some d \<Rightarrow> d | None \<Rightarrow> 0))"

definition ascii_digits :: "pystr \<Rightarrow> bool" where
  "ascii_digits x \<longleftrightarrow> x \<noteq> [] \<and> list_all (\<lambda>c. 48 \<le> c \<and> c \<le> 57) x"

definition rgb_form :: "pystr \<Rightarrow> bool" where
  "rgb_form s \<longleftrightarrow>
     5 \<le> length s \<and> last s = 41 \<and>
     (case spec_after_prefix (str ''RGB('') s of
        None \<Rightarrow> False
      | Some r \<Rightarrow>
          (case split 44 (butlast r) of
             [x, y, z] \<Rightarrow> ascii_digits x \<and> ascii_digits y \<and> ascii_digits z
           | _ \<Rightarrow> False))"

text \<open>The four characters \<open>RGB(\<close>, each letter in either case.\<close>

definition rgb_prefix :: "pystr \<Rightarrow> bool" where
  "rgb_prefix pre \<longleftrightarrow>
     (case pre of
        [r, g, b, p] \<Rightarrow> (r = 82 \<or> r = 114) \<and> (g = 71 \<or> g = 103) \<and> (b = 66 \<or> b = 98) \<and> p = 40
      | _ \<Rightarrow> False)"

definition three_integers :: "env \<Rightarrow> pystr \<Rightarrow> rgbcolor option" where
  "three_integers e body =
     (case split 44 body of
        [x, y, z] \<Rightarrow>
          (case (py_int e 10 (spec_trim x), py_int e 10 (spec_trim y), py_int e 10 (spec_trim z)) of
             (Inr r, Inr g, Inr b) \<Rightarrow>
               if 0 \<le> r \<and> r \<le> 255 \<and> 0 \<le> g \<and> g \<le> 255 \<and> 0 \<le> b \<and> b \<le> 255
               then Some (r, g, b) else None
           | _ \<Rightarrow> None)
      | _ \<Rightarrow> None)"

section \<open>The built-in rule table\<close>

definition DEFAULT_STYLE_MAP :: rules where
  "DEFAULT_STYLE_MAP =
   [(str ''Heading 1'',
     [(str ''font_name'', PStr (str ''Century Gothic'')), (str ''font_size_pt'', PInt 14),
      (str ''bold'', PBool True), (str ''italic'', PBool False),
      (str ''color'', PStr (str ''#0052A3'')), (str ''alignment'', PStr (str ''Left'')),
      (str ''line_spacing'', PFloat (FloatVal 2589569785738035 (- 51))),
      (str ''spacing_before_pt'', PInt 12), (str ''spacing_after_pt'', PInt 6),
      (str ''keep_with_next'', PBool True), (str ''keep_lines_together'', PBool True),
      (str ''indent_left_cm'', PInt 0), (str ''indent_hanging_cm'', PInt 1),
      (str ''numbering_level'', PInt 1), (str ''numbering_pattern'', PStr (str ''%1'')),
      (str ''based_on'', PStr (str ''Normal'')), (str ''following_style'', PStr (str ''Normal''))]),
    (str ''Heading 2'',
     [(str ''font_name'', PStr (str ''Century Gothic'')), (str ''font_size_pt'', PInt 12),
      (str ''bold'', PBool True), (str ''italic'', PBool False),
      (str ''color'', PStr (str ''#0052A3'')), (str ''alignment'', PStr (str ''Left'')),
      (str ''line_spacing'', PFloat (FloatVal 2589569785738035 (- 51))),
      (str ''spacing_before_pt'', PInt 12), (str ''spacing_after_pt'', PInt 6),
      (str ''keep_with_next'', PBool True), (str ''keep_lines_together'', PBool True),
      (str ''indent_left_cm'', PInt 0),
      (str ''indent_hanging_cm'', PFloat (FloatVal 2296835809958953 (- 51))),
      (str ''numbering_level'', PInt 2), (str ''numbering_pattern'', PStr (str ''%1.%2'')),
      (str ''based_on'', PStr (str ''Normal'')), (str ''following_style'', PStr (str ''Normal''))]),
    (str ''Heading 3'',
     [(str ''font_name'', PStr (str ''Century Gothic'')), (str ''font_size_pt'', PInt 11),
      (str ''bold'', PBool True), (str ''italic'', PBool False),
      (str ''color'', PStr (str ''#0052A3'')), (str ''alignment'', PStr (str ''Left'')),
      (str ''line_spacing'', PFloat (FloatVal 2589569785738035 (- 51))),
      (str ''spacing_before_pt'', PInt 8), (str ''spacing_after_pt'', PInt 6),
      (str ''keep_with_next'', PBool True), (str ''keep_lines_together'', PBool True),
      (str ''indent_left_cm'', PInt 0),
      (str ''indent_hanging_cm'', PFloat (FloatVal 2859785763380265 (- 51))),
      (str ''numbering_level'', PInt 3), (str ''numbering_pattern'', PStr (str ''%1.%2.%3'')),
      (str ''based_on'', PStr (str ''Normal'')), (str ''following_style'', PStr (str ''Normal''))]),
    (str ''Heading 4'',
     [(str ''font_name'', PStr (str ''Century Gothic'')), (str ''font_size_pt'', PInt 9),
      (str ''bold'', PBool False), (str ''italic'', PBool False),
      (str ''color'', PStr (str ''RGB(1,95,95)'')), (str ''alignment'', PStr (str ''Left'')),
      (str ''line_spacing'', PFloat (FloatVal 3 (- 1))),
      (str ''spacing_before_pt'', PInt 8), (str ''spacing_after_pt'', PInt 6),
      (str ''keep_with_next'', PBool True), (str ''keep_lines_together'', PBool True),
      (str ''indent_left_cm'', PInt 0),
      (str ''indent_hanging_cm'', PFloat (FloatVal 3422735716801577 (- 51))),
      (str ''numbering_level'', PInt 4), (str ''numbering_pattern'', PStr (str ''%1.%2.%3.%4'')),
      (str ''based_on'', PStr (str ''Normal'')), (str ''following_style'', PStr (str ''Normal''))]),
    (str ''Normal'',
     [(str ''font_name'', PStr (str ''Century Gothic'')), (str ''font_size_pt'', PInt 10),
      (str ''bold'', PBool False), (str ''italic'', PBool False),
      (str ''color'', PStr (str ''Text 1'')), (str ''alignment'', PStr (str ''Left'')),
      (str ''line_spacing'', PFloat (FloatVal 1 0)),
      (str ''spacing_before_pt'', PInt 0), (str ''spacing_after_pt'', PInt 6),
      (str ''widow_orphan_control'', PBool True),
      (str ''based_on'', PNone), (str ''following_style'', PStr (str ''Normal''))]),
    (str ''List Paragraph Bullet Points'',
     [(str ''font_name'', PStr (str ''Century Gothic'')),
      (str ''font_size_pt'', PFloat (FloatVal 21 (- 1))),
      (str ''bold'', PBool False), (str ''italic'', PBool False),
      (str ''color'', PStr (str ''Text 1'')), (str ''alignment'', PStr (str ''Left'')),
      (str ''line_spacing'', PFloat (FloatVal 1 0)),
      (str ''spacing_before_pt'', PInt 0), (str ''spacing_after_pt'', PInt 0),
      (str ''indent_left_cm'', PFloat (FloatVal 2859785763380265 (- 51))),
      (str ''spacing_same_paragraphs'', PBool False), (str ''based_on'', PStr (str ''Normal'')),
      (str ''following_style'', PStr (str ''List Paragraph Bullet Points''))]),
    (str ''Normal Bullet'',
     [(str ''font_name'', PStr (str ''Century Gothic'')), (str ''font_size_pt'', PInt 10),
      (str ''bold'', PBool False), (str ''italic'', PBool False),
      (str ''color'', PStr (str ''Text 1'')), (str ''alignment'', PStr (str ''Left'')),
      (str ''line_spacing'', PFloat (FloatVal 607985949695017 (- 49))),
      (str ''spacing_before_pt'', PInt 8), (str ''spacing_after_pt'', PInt 8),
      (str ''indent_hanging_cm'', PFloat (FloatVal 5674535530486825 (- 53))),
      (str ''indent_left_cm'', PFloat (FloatVal 2859785763380265 (- 51))),
      (str ''bullet_level'', PInt 1),
      (str ''bullet_alignment_cm'', PFloat (FloatVal 5674535530486825 (- 53))),
      (str ''based_on'', PStr (str ''List Paragraph Bullet Point'')),
      (str ''following_style'', PStr (str ''Normal Bullet''))])]"

section \<open>An environment to compute in\<close>

text \<open>
  One interpreter and library to evaluate the definitions on concrete inputs: the decimal
  table holds the Arabic-Indic digits U+0660..U+0669 besides the ASCII ones, the digit
  limit is CPython's default, and a length is the number times the EMU of its unit (12700
  a point, 360000 a centimetre), cut towards zero; a value that is no number raises.
  \<open>sample_record\<close> is a style record with a hanging indent, a flag, an alignment that
  \<open>align_map\<close> does not know and a key the styler does not read. The sample lines are a
  heading after a byte-order mark and before a carriage return and newline, a numbered
  item and the item \<open>1.\<close> with a tab (code point 9) after the token, and a bullet.
\<close>

definition emu_length :: "int \<Rightarrow> pyval \<Rightarrow> error + int" where
  "emu_length unit v =
     (case v of
        PInt i \<Rightarrow> Inr (i * unit)
      | PBool b \<Rightarrow> Inr (if b then unit else 0)
      | PFloat (FloatVal m x) \<Rightarrow>
          Inr (if 0 \<le> x then m * 2 ^ nat x * unit
               else if 0 \<le> m then (m * unit) div 2 ^ nat (- x)
               else - ((- m * unit) div 2 ^ nat (- x)))
      | PFloat FloatNegZero \<Rightarrow> Inr 0
      | PFloat _ \<Rightarrow> Inl ValueError
      | _ \<Rightarrow> Inl TypeError)"




definition sample_bullet_line :: pystr where
  "sample_bullet_line = str ''-   point one  '' @ [13, 10]"

definition sample_record :: pydict where
  "sample_record =
     [(str ''indent_hanging_cm'', PInt 1), (str ''keep_with_next'', PBool True),
      (str ''alignment'', PStr (str ''Middle'')), (str ''numbering_level'', PInt 1)]"

definition sample_env :: env where
  "sample_env =
     \<lparr>uni_decimal = (\<lambda>c. if 1632 \<le> c \<and> c \<le> 1641 then Some (c - 1632) else None),
      int_max_str_digits = 4300,
      Pt = emu_length 12700,
      Cm = emu_length 360000\<rparr>"

section \<open>Facts about strings and normalization\<close>

lemma startswith_Nil [simp]: "startswith t []"
  by (simp add: startswith_def)

lemma startswith_Cons_Cons [simp]: "startswith (x # xs) (c # cs) \<longleftrightarrow> x = c \<and> startswith xs cs"
  by (auto simp: startswith_def)

lemma startswith_Nil_Cons [simp]: "\<not> startswith [] (c # cs)"
  by (simp add: startswith_def)

lemma startswith_Cons: "startswith t (c # cs) \<longleftrightarrow> (\<exists>r. t = c # r \<and> startswith r cs)"
  by (cases t) auto

lemma rstrip_chars_fixed: "s = [] \<or> last s \<notin> set chars \<Longrightarrow> rstrip_chars chars s = s"
  by (cases s rule: rev_cases) (auto simp: rstrip_chars_def)

lemma rstrip_chars_last: "rstrip_chars chars s = [] \<or> last (rstrip_chars chars s) \<notin> set chars"
proof -
  let ?d = "dropWhile (\<lambda>c. c \<in> set chars) (rev s)"
  show ?thesis
  proof (cases ?d)
    case Nil
    then show ?thesis by (simp add: rstrip_chars_def)
  next
    case (Cons x xs)
    then have "x \<notin> set chars" using hd_dropWhile [of "\<lambda>c. c \<in> set chars" "rev s"] by auto
    with Cons show ?thesis by (simp add: rstrip_chars_def)
  qed
qed

lemma tl_no_trailing: "s = [] \<or> last s \<notin> set chars \<Longrightarrow> drop 1 s = [] \<or> last (drop 1 s) \<notin> set chars"
  by (cases s) (auto split: if_splits)

lemma normalize_twice_iff:
  "normalize (Some (normalize line)) = normalize line \<longleftrightarrow>
     \<not> startswith (rstrip_chars [13, 10] (case line of None \<Rightarrow> [] | Some l \<Rightarrow> l)) [BOM, BOM]"
proof -
  define t where "t = rstrip_chars [13, 10] (case line of None \<Rightarrow> [] | Some l \<Rightarrow> l)"
  have t: "t = [] \<or> last t \<notin> set [13, 10]"
    unfolding t_def by (rule rstrip_chars_last)
  have n: "normalize line = (if startswith t [BOM] then drop 1 t else t)"
    by (simp add: normalize_def t_def Let_def)
  have u: "rstrip_chars [13, 10] (normalize line) = normalize line"
    unfolding n using t tl_no_trailing [OF t] by (auto intro!: rstrip_chars_fixed)
  define u where "u = normalize line"
  have m: "normalize (Some u) = (if startswith u [BOM] then drop 1 u else u)"
    using u by (simp add: normalize_def [of "Some _"] u_def Let_def)
  have n': "u = (if startswith t [BOM] then drop 1 t else t)"
    using n by (simp add: u_def)
  have "normalize (Some u) = u \<longleftrightarrow> \<not> startswith t [BOM, BOM]"
    unfolding m by (subst (1 2 3 4) n') (cases t, auto simp: startswith_Cons)
  then show ?thesis
    by (simp add: u_def t_def)
qed

section \<open>Facts about the classifier\<close>

lemma strip_Nil [simp]: "strip [] = []"
  by (simp add: strip_def)

lemma prefix_literals:
  "str ''H1:'' = [72, 49, 58]" "str ''H2:'' = [72, 50, 58]"
  "str ''H3:'' = [72, 51, 58]" "str ''H4:'' = [72, 52, 58]"
  "str ''# '' = [35, 32]" "str ''## '' = [35, 35, 32]"
  "str ''### '' = [35, 35, 35, 32]" "str ''#### '' = [35, 35, 35, 35, 32]"
  "str ''- '' = [45, 32]" "str ''* '' = [42, 32]"
  by (simp_all add: str_def)

lemma scan_level:
  "scan_headings t ((s, [p1, p2]) # ms) =
     (if startswith t p1 then Some (s, strip (drop (length p1) t))
      else if startswith t p2 then Some (s, strip (drop (length p2) t))
      else scan_headings t ms)"
  by simp

lemma short_lengths:
  "length [a, b] = 2" "length [a, b, c] = 3" "length [a, b, c, d] = 4" "length [a, b, c, d, f] = 5"
  by simp_all

lemma scan_headings_unfold:
  "scan_headings t heading_markers =
     (if startswith t [72, 49, 58] then Some (str ''Heading 1'', strip (drop 3 t))
      else if startswith t [35, 32] then Some (str ''Heading 1'', strip (drop 2 t))
      else if startswith t [72, 50, 58] then Some (str ''Heading 2'', strip (drop 3 t))
      else if startswith t [35, 35, 32] then Some (str ''Heading 2'', strip (drop 3 t))
      else if startswith t [72, 51, 58] then Some (str ''Heading 3'', strip (drop 3 t))
      else if startswith t [35, 35, 35, 32] then Some (str ''Heading 3'', strip (drop 4 t))
      else if startswith t [72, 52, 58] then Some (str ''Heading 4'', strip (drop 3 t))
      else if startswith t [35, 35, 35, 35, 32] then Some (str ''Heading 4'', strip (drop 5 t))
      else None)"
  unfolding heading_markers_def scan_level scan_headings.simps(1) prefix_literals short_lengths
  by (rule refl)

lemma no_heading_first:
  assumes "d \<noteq> 72" "d \<noteq> 35"
  shows "scan_headings (d # rest) heading_markers = None"
  unfolding scan_headings_unfold using assms by simp

lemma not_decimal_punct: "dot_or_paren p \<Longrightarrow> \<not> isdecimal e p"
  by (auto simp: dot_or_paren_def isdecimal_def decimal_value_def)

lemma not_decimal_letter: "ascii_letter l \<Longrightarrow> \<not> isdecimal e l"
  by (auto simp: ascii_letter_def isdecimal_def decimal_value_def)

lemma decimal_ascii: "isdecimal e c \<Longrightarrow> c < 128 \<Longrightarrow> 48 \<le> c \<and> c \<le> 57"
  by (auto simp: isdecimal_def decimal_value_def split: if_splits)

lemma numbered_digits_match:
  assumes "ds \<noteq> []" "list_all (isdecimal e) ds" "dot_or_paren p" "isspace w"
  shows "numbered_re_match e (ds @ p # w # rest) = Some (length ds + 2)"
proof -
  have np: "\<not> isdecimal e p" using assms(3) by (rule not_decimal_punct)
  have all: "\<forall>x\<in>set ds. isdecimal e x" using assms(2) by (simp add: list_all_iff)
  have tw: "takeWhile (isdecimal e) (ds @ p # w # rest) = ds"
    using all np by (simp add: takeWhile_append2)
  have dw: "dropWhile (isdecimal e) (ds @ p # w # rest) = p # w # rest"
    using all np by (simp add: dropWhile_append2)
  show ?thesis
    using assms by (simp add: numbered_re_match_def tw dw)
qed

lemma numbered_letter_match:
  assumes "ascii_letter l" "dot_or_paren p" "isspace w"
  shows "numbered_re_match e (l # p # w # rest) = Some 3"
  using assms not_decimal_letter [OF assms(1), of e]
  by (simp add: numbered_re_match_def letter_alternative_def)

lemma no_heading_digits:
  assumes "isdecimal e d"
  shows "scan_headings (d # rest) heading_markers = None"
proof -
  have "d \<noteq> 72 \<and> d \<noteq> 35" using decimal_ascii [OF assms] by auto
  then show ?thesis by (simp add: no_heading_first)
qed

lemma no_heading_letter:
  assumes "dot_or_paren p"
  shows "scan_headings (l # p # rest) heading_markers = None"
proof -
  have "p \<noteq> 49 \<and> p \<noteq> 50 \<and> p \<noteq> 51 \<and> p \<noteq> 52 \<and> p \<noteq> 35 \<and> p \<noteq> 32"
    using assms by (auto simp: dot_or_paren_def)
  then show ?thesis
    unfolding scan_headings_unfold by simp
qed

lemma numbered_general:
  assumes form: "(ds \<noteq> [] \<and> list_all (isdecimal e) ds) \<or> (\<exists>l. ds = [l] \<and> ascii_letter l)"
    and p: "dot_or_paren p" and w: "isspace w"
    and nl: "normalize line = ds @ p # w # rest"
  shows "detect_line e line rules = (str ''Normal'', strip rest)"
proof -
  have m: "numbered_re_match e (ds @ p # w # rest) = Some (length ds + 2)"
    using form numbered_digits_match [OF _ _ p w] numbered_letter_match [OF _ p w] by auto
  have h: "scan_headings (ds @ p # w # rest) heading_markers = None"
  proof -
    from form consider (digits) d ds' where "ds = d # ds'" "isdecimal e d" | (letter) l where "ds = [l]"
      by (cases ds) auto
    then show ?thesis
    proof cases
      case digits
      then show ?thesis using no_heading_digits [of e d] by simp
    next
      case letter
      then show ?thesis using no_heading_letter [OF p] by simp
    qed
  qed
  show ?thesis
    by (simp add: detect_line_def nl h m re_sub_numbered_def Let_def)
qed

lemma heading_hits:
  "scan_headings (72 # 49 # 58 # r) heading_markers = Some (str ''Heading 1'', strip r)"
  "scan_headings (35 # 32 # r) heading_markers = Some (str ''Heading 1'', strip r)"
  "scan_headings (72 # 50 # 58 # r) heading_markers = Some (str ''Heading 2'', strip r)"
  "scan_headings (35 # 35 # 32 # r) heading_markers = Some (str ''Heading 2'', strip r)"
  "scan_headings (72 # 51 # 58 # r) heading_markers = Some (str ''Heading 3'', strip r)"
  "scan_headings (35 # 35 # 35 # 32 # r) heading_markers = Some (str ''Heading 3'', strip r)"
  "scan_headings (72 # 52 # 58 # r) heading_markers = Some (str ''Heading 4'', strip r)"
  "scan_headings (35 # 35 # 35 # 35 # 32 # r) heading_markers = Some (str ''Heading 4'', strip r)"
  by (simp_all add: scan_headings_unfold)

lemma detect_line_heading:
  "scan_headings (normalize line) heading_markers = Some hit \<Longrightarrow> detect_line e line rules = hit"
  by (simp add: detect_line_def Let_def)

lemma heading_general:
  assumes "(style_name, pref) \<in> set
      [(str ''Heading 1'', str ''H1:''), (str ''Heading 1'', str ''# ''),
       (str ''Heading 2'', str ''H2:''), (str ''Heading 2'', str ''## ''),
       (str ''Heading 3'', str ''H3:''), (str ''Heading 3'', str ''### ''),
       (str ''Heading 4'', str ''H4:''), (str ''Heading 4'', str ''#### '')]"
    and "startswith (normalize line) pref"
  shows "detect_line e line rules = (style_name, strip (drop (length pref) (normalize line)))"
proof -
  define t where "t = normalize line"
  have "scan_headings t heading_markers = Some (style_name, strip (drop (length pref) t))"
    using assms unfolding t_def [symmetric]
    by (auto simp: prefix_literals startswith_Cons heading_hits)
  then show ?thesis
    unfolding t_def by (rule detect_line_heading)
qed

lemma bullet_general:
  assumes "m \<in> set bullet_markers" and "startswith (normalize line) m"
  shows "detect_line e line rules =
     (if map_of rules (str ''Normal Bullet'') \<noteq> None then str ''Normal Bullet''
      else str ''List Paragraph Bullet Points'', strip (drop 2 (normalize line)))"
proof -
  from assms obtain a rest where t: "normalize line = a # 32 # rest" and a: "a = 45 \<or> a = 42 \<or> a = 8226"
    by (auto simp: bullet_markers_def prefix_literals startswith_Cons)
  have h: "scan_headings (a # 32 # rest) heading_markers = None"
    using a by (auto simp: no_heading_first)
  have s: "\<not> isdecimal e 32"
    by (simp add: isdecimal_def decimal_value_def)
  have la: "letter_alternative (a # 32 # rest) = None"
    by (simp add: letter_alternative_def dot_or_paren_def split: list.splits)
  have n: "numbered_re_match e (a # 32 # rest) = None"
    by (cases "isdecimal e a")
      (simp_all add: numbered_re_match_def s la dot_or_paren_def split: list.splits)
  have b: "list_ex (startswith (a # 32 # rest)) bullet_markers"
    using a by (auto simp: bullet_markers_def prefix_literals)
  show ?thesis
    unfolding detect_line_def Let_def t using h n b by simp
qed


text \<open>The source's functions and the specification's words.\<close>

lemma rev_dropWhile_rev_Cons:
  "rev (dropWhile P (rev (c # cs))) =
     (if rev (dropWhile P (rev cs)) = [] \<and> P c then [] else c # rev (dropWhile P (rev cs)))"
  by (auto simp: dropWhile_append dropWhile_eq_Nil_conv)

lemma spec_trim_right_rev: "spec_trim_right s = rev (dropWhile isspace (rev s))"
  by (induction s) (simp_all add: rev_dropWhile_rev_Cons del: rev.simps)

lemma spec_trim_left_dropWhile: "spec_trim_left s = dropWhile isspace s"
  by (induction s) simp_all

lemma spec_trim_strip: "spec_trim s = strip s"
  by (simp add: spec_trim_def strip_def spec_trim_right_rev spec_trim_left_dropWhile)

lemma spec_strip_line_end_rstrip: "spec_strip_line_end s = rstrip_chars [13, 10] s"
proof (induction s)
  case Nil
  show ?case by (simp add: rstrip_chars_def)
next
  case (Cons c cs)
  have "rstrip_chars [13, 10] (c # cs) =
      (if rstrip_chars [13, 10] cs = [] \<and> c \<in> set [13, 10] then [] else c # rstrip_chars [13, 10] cs)"
    unfolding rstrip_chars_def by (rule rev_dropWhile_rev_Cons)
  then show ?case
    using Cons by auto
qed

lemma spec_normalize_normalize: "spec_normalize raw = normalize (Some raw)"
  by (cases "rstrip_chars [13, 10] raw")
    (simp_all add: spec_normalize_def normalize_def spec_strip_line_end_rstrip BOM_def)

lemma normalize_None: "normalize None = normalize (Some [])"
  by (simp add: normalize_def)

lemma spec_after_prefix_startswith:
  "spec_after_prefix pref t = (if startswith t pref then Some (drop (length pref) t) else None)"
  by (induction pref t rule: spec_after_prefix.induct) auto

lemma spec_heading_startswith:
  "spec_heading s pref t = (if startswith t pref then Some (s, strip (drop (length pref) t)) else None)"
  by (simp add: spec_heading_def spec_after_prefix_startswith spec_trim_strip)

lemma spec_skip_digits_dropWhile: "spec_skip_digits e s = dropWhile (isdecimal e) s"
  by (induction s) simp_all

lemma spec_token_end_None: "\<not> dot_or_paren p \<Longrightarrow> spec_token_end space (p # r) = None"
  by (simp add: spec_token_end_def dot_or_paren_def split: list.splits)

lemma spec_numbered_match:
  "spec_numbered isspace e t =
     (case numbered_re_match e t of
        None \<Rightarrow> None
      | Some n \<Rightarrow> Some (str ''Normal'', strip (drop n t)))"
proof (cases t)
  case Nil
  then show ?thesis
    by (simp add: spec_numbered_def numbered_re_match_def letter_alternative_def)
next
  case (Cons c cs)
  show ?thesis
  proof (cases "isdecimal e c")
    case True
    then have nl: "\<not> ascii_letter c" using not_decimal_letter [of c e] by blast
    define d where "d = dropWhile (isdecimal e) cs"
    define k where "k = length (takeWhile (isdecimal e) cs)"
    have la: "letter_alternative (c # cs) = None"
      using nl by (simp add: letter_alternative_def split: list.splits)
    have "drop (k + 2) cs = drop 2 (drop k cs)"
      by (simp add: add.commute)
    then have dr: "drop (Suc k + 2) (c # cs) = drop 2 d"
      by (simp add: d_def k_def dropWhile_eq_drop)
    have lhs: "spec_numbered isspace e (c # cs) =
        (case spec_token_end isspace d of
           None \<Rightarrow> None
         | Some r \<Rightarrow> Some (str ''Normal'', strip r))"
      using True
      by (simp add: spec_numbered_def spec_skip_digits_dropWhile d_def spec_trim_strip
          split: option.splits)
    have rhs: "numbered_re_match e (c # cs) =
        (case d of
           p # w # r \<Rightarrow> if dot_or_paren p \<and> isspace w then Some (Suc k + 2) else None
         | _ \<Rightarrow> None)"
    proof -
      have tw: "takeWhile (isdecimal e) (c # cs) = c # takeWhile (isdecimal e) cs"
        and dw: "dropWhile (isdecimal e) (c # cs) = d"
        using True by (simp_all add: d_def)
      have len: "length (c # takeWhile (isdecimal e) cs) + 2 = Suc k + 2"
        by (simp add: k_def)
      show ?thesis
        unfolding numbered_re_match_def tw dw la len
        by (cases d rule: list.exhaust) (simp, rename_tac p r, case_tac r, simp_all)
    qed
    show ?thesis
    proof (cases d)
      case Nil
      then show ?thesis
        unfolding Cons lhs rhs by (simp add: spec_token_end_def)
    next
      case d1: (Cons p r1)
      show ?thesis
      proof (cases r1)
        case Nil
        then show ?thesis
          unfolding Cons lhs rhs d1 by (simp add: spec_token_end_def)
      next
        case (Cons w r)
        have "drop (Suc k + 2) (c # cs) = r"
          using dr d1 Cons by simp
        then show ?thesis
          unfolding \<open>t = c # cs\<close> lhs rhs d1 Cons
          by (simp add: spec_token_end_def dot_or_paren_def)
      qed
    qed
  next
    case False
    then have tw: "takeWhile (isdecimal e) (c # cs) = []"
      and dw: "dropWhile (isdecimal e) (c # cs) = c # cs"
      by simp_all
    have nm: "numbered_re_match e (c # cs) = letter_alternative (c # cs)"
      unfolding numbered_re_match_def tw dw by (simp split: list.splits)
    show ?thesis
      unfolding Cons nm spec_numbered_def using False
      by (auto simp: spec_token_end_def letter_alternative_def spec_trim_strip dot_or_paren_def
          split: list.splits)
  qed
qed

lemma key_exists: "k \<in> fst ` set kvs \<longleftrightarrow> map_of kvs k \<noteq> None"
  by (simp add: map_of_eq_None_iff)

lemma spec_bullet_markers:
  "spec_bullet rules t =
     (if list_ex (startswith t) bullet_markers
      then Some (if map_of rules (str ''Normal Bullet'') \<noteq> None then str ''Normal Bullet''
                 else str ''List Paragraph Bullet Points'',
                 if 2 \<le> length t then strip (drop 2 t) else [])
      else None)"
proof -
  have short: "strip (drop 2 t) = (if 2 \<le> length t then strip (drop 2 t) else [])"
    by simp
  show ?thesis
    unfolding spec_bullet_def bullet_markers_def spec_after_prefix_startswith key_exists
      spec_trim_strip short [symmetric]
    by simp
qed

lemma scan_prefixes_spec:
  "(case scan_prefixes t s ps of Some hit \<Rightarrow> hit | None \<Rightarrow> spec_first_match rs t) =
     spec_first_match (map (spec_heading s) ps @ rs) t"
  by (induction ps) (simp_all add: spec_heading_startswith)

lemma scan_headings_spec:
  "(case scan_headings t ms of Some hit \<Rightarrow> hit | None \<Rightarrow> spec_first_match rs t) =
     spec_first_match (concat (map (\<lambda>(s, ps). map (spec_heading s) ps) ms) @ rs) t"
proof (induction ms)
  case Nil
  show ?case by simp
next
  case (Cons m ms)
  obtain s ps where m: "m = (s, ps)" by (cases m)
  show ?case
    unfolding m using Cons scan_prefixes_spec [where t = t and s = s and ps = ps, symmetric]
    by (simp split: option.splits)
qed

lemma spec_chain_markers:
  "spec_chain space e rules =
     concat (map (\<lambda>(s, ps). map (spec_heading s) ps) heading_markers) @
     [spec_numbered space e, spec_bullet rules]"
  by (simp add: spec_chain_def heading_markers_def)

lemma detect_line_spec:
  "detect_line e line rules =
     spec_classify isspace e rules (case line of None \<Rightarrow> [] | Some l \<Rightarrow> l)"
proof -
  define t where "t = normalize line"
  have n: "spec_normalize (case line of None \<Rightarrow> [] | Some l \<Rightarrow> l) = t"
    unfolding t_def by (cases line) (simp_all add: spec_normalize_normalize normalize_None)
  have tail: "spec_first_match [spec_numbered isspace e, spec_bullet rules] t =
      (if numbered_re_match e t \<noteq> None then (str ''Normal'', strip (re_sub_numbered e t))
       else if list_ex (startswith t) bullet_markers then
         (if map_of rules (str ''Normal Bullet'') \<noteq> None then str ''Normal Bullet''
          else str ''List Paragraph Bullet Points'',
          if 2 \<le> length t then strip (drop 2 t) else [])
       else (str ''Normal'', t))"
    by (cases "numbered_re_match e t")
      (simp_all add: spec_numbered_match spec_bullet_markers re_sub_numbered_def)
  have "detect_line e line rules =
      (case scan_headings t heading_markers of Some hit \<Rightarrow> hit
       | None \<Rightarrow> spec_first_match [spec_numbered isspace e, spec_bullet rules] t)"
    unfolding detect_line_def Let_def t_def [symmetric] tail by (rule refl)
  then show ?thesis
    unfolding spec_classify_def n spec_chain_markers scan_headings_spec .
qed



lemmas spec_classify_evals = spec_classify_def spec_normalize_def spec_chain_def
  spec_heading_def spec_numbered_def spec_bullet_def spec_token_end_def spec_trim_def
  isspace_def str_def isdecimal_def decimal_value_def ascii_letter_def

section \<open>Facts about the colour resolver\<close>

lemma rgb_try_three:
  "rgb_try e s = Inr c \<longleftrightarrow> three_integers e (butlast (drop 4 s)) = Some c"
  by (auto simp: rgb_try_def three_integers_def spec_trim_strip RGBColor_def Let_def
      split: list.splits sum.splits if_splits)

lemma rgb_outside_hash:
  assumes "\<not> (startswith s (str ''#'') \<and> length s = 7)"
  shows "rgb e (PStr s) =
     (if startswith (upper s) (str ''RGB('') then
        (case three_integers e (butlast (drop 4 s)) of Some c \<Rightarrow> Inr c | None \<Rightarrow> Inr (0, 0, 0))
      else Inr (0, 0, 0))"
proof -
  have h: "(startswith s (str ''#'') \<and> length s = 7) = False"
    using assms by blast
  show ?thesis
  proof (cases "rgb_try e s")
    case (Inl err)
    then have "three_integers e (butlast (drop 4 s)) = None"
      using rgb_try_three [of e s] by (cases "three_integers e (butlast (drop 4 s))") auto
    with Inl show ?thesis
      unfolding rgb_def by (simp add: h RGBColor_def)
  next
    case (Inr c)
    then have "three_integers e (butlast (drop 4 s)) = Some c"
      using rgb_try_three [of e s c] by simp
    with Inr show ?thesis
      unfolding rgb_def by (simp add: h RGBColor_def)
  qed
qed

lemma upper_RGB_prefix:
  assumes "length pre = 4" and "upper pre = str ''RGB(''"
  shows "\<not> startswith (pre @ r) (str ''#'')" and "startswith (upper (pre @ r)) (str ''RGB('')"
proof -
  from assms(1) obtain a b c d where pre: "pre = [a, b, c, d]"
    by (auto simp: eval_nat_numeral length_Suc_conv)
  have "a \<noteq> 35"
    using assms(2) unfolding pre by (auto simp: upper_def str_def split: if_splits)
  then show "\<not> startswith (pre @ r) (str ''#'')"
    by (simp add: pre str_def)
  have "upper (pre @ r) = str ''RGB('' @ upper r"
    using assms(2) by (simp add: upper_def)
  then show "startswith (upper (pre @ r)) (str ''RGB('')"
    by (simp add: startswith_def)
qed

lemma rgb_closed:
  assumes "length pre = 4" and "upper pre = str ''RGB(''"
  shows "rgb e (PStr (pre @ body @ [41])) =
     (case three_integers e body of Some c \<Rightarrow> Inr c | None \<Rightarrow> Inr (0, 0, 0))"
proof -
  have "butlast (drop 4 (pre @ body @ [41])) = body"
    using assms(1) by (simp add: butlast_append)
  then show ?thesis
    using rgb_outside_hash [of "pre @ body @ [41]" e] upper_RGB_prefix [OF assms, of "body @ [41]"]
    by simp
qed

lemma rgb_other:
  assumes "\<not> (startswith s (str ''#'') \<and> length s = 7)" and "\<not> startswith (upper s) (str ''RGB('')"
  shows "rgb e (PStr s) = Inr (0, 0, 0)"
  using rgb_outside_hash [OF assms(1), of e] assms(2) by simp

lemmas int_evals = py_int_def to_ascii_def skip_sign_def skip_base_prefix_def is_digit_def
  digit_value_def digits_value_def ascii_space_def Let_def

lemma rgb_hex_example: "rgb e (PStr (str ''#0052A3'')) = Inr (0, 82, 163)"
  by (simp add: rgb_def str_def slice_def RGBColor_def int_evals)

lemma rgb_components_example: "rgb e (PStr (str ''RGB(1,95,95)'')) = Inr (1, 95, 95)"
  by (simp add: rgb_def str_def upper_def rgb_try_def strip_def isspace_def RGBColor_def int_evals)

lemma rgb_theme_example: "rgb e (PStr (str ''Text 1'')) = Inr (0, 0, 0)"
  by (simp add: rgb_def str_def upper_def RGBColor_def)

lemma rgb_bad_example: "rgb e (PStr (str ''RGB(bad)'')) = Inr (0, 0, 0)"
  by (simp add: rgb_def str_def upper_def rgb_try_def strip_def isspace_def RGBColor_def int_evals)

lemma rgb_non_hex_raises: "rgb e (PStr (str ''#GGGGGG'')) = Inl ValueError"
  by (simp add: rgb_def str_def slice_def RGBColor_def int_evals)

lemma hex_digit_cases:
  "is_digit 16 a \<longleftrightarrow> (48 \<le> a \<and> a \<le> 57) \<or> (97 \<le> a \<and> a \<le> 102) \<or> (65 \<le> a \<and> a \<le> 70)"
  by (auto simp: is_digit_def digit_value_def)

lemma py_int_hex_pair:
  assumes "is_digit 16 a" "is_digit 16 b"
  shows "py_int e 16 [a, b] = Inr (hex_pair a b)"
proof -
  have a: "a < 127" "\<not> ascii_space a" "a \<noteq> 43" "a \<noteq> 45" "a \<noteq> 95"
    using assms(1) by (auto simp: hex_digit_cases ascii_space_def)
  have b: "b < 127" "\<not> ascii_space b" "b \<noteq> 95" "b \<noteq> 120" "b \<noteq> 88"
    using assms(2) by (auto simp: hex_digit_cases ascii_space_def)
  have m: "map (to_ascii e) [a, b] = [a, b]"
    using a b by (simp add: to_ascii_def)
  show ?thesis
    unfolding py_int_def m using a b assms
    by (simp add: skip_sign_def skip_base_prefix_def Let_def digits_value_def hex_pair_def)
qed

lemma hex_pair_range: "is_digit 16 a \<Longrightarrow> is_digit 16 b \<Longrightarrow> 0 \<le> hex_pair a b \<and> hex_pair a b \<le> 255"
  by (auto simp: hex_pair_def is_digit_def split: option.splits)

lemma rgb_hex_form:
  assumes "hex_form s"
  shows "rgb e (PStr s) = Inr (hex_pair (s ! 1) (s ! 2), hex_pair (s ! 3) (s ! 4), hex_pair (s ! 5) (s ! 6))"
proof -
  from assms obtain r where r: "s = 35 # r" "length r = 6" "list_all (is_digit 16) r"
    by (cases s) (simp_all add: hex_form_def str_def split: if_splits)
  from r(2) obtain a b c d f g where "r = [a, b, c, d, f, g]"
    by (auto simp: eval_nat_numeral length_Suc_conv)
  with r have s: "s = [35, a, b, c, d, f, g]"
    and h: "is_digit 16 a" "is_digit 16 b" "is_digit 16 c" "is_digit 16 d" "is_digit 16 f" "is_digit 16 g"
    by simp_all
  show ?thesis
    unfolding s rgb_def using h hex_pair_range [OF h(1,2)] hex_pair_range [OF h(3,4)] hex_pair_range [OF h(5,6)]
    by (simp add: str_def slice_def py_int_hex_pair RGBColor_def)
qed

lemma rgb_prefix_upper: "rgb_prefix pre \<longleftrightarrow> length pre = 4 \<and> upper pre = str ''RGB(''"
proof
  assume "rgb_prefix pre"
  then obtain r g b p where "pre = [r, g, b, p]"
    and "r = 82 \<or> r = 114" "g = 71 \<or> g = 103" "b = 66 \<or> b = 98" "p = 40"
    by (auto simp: rgb_prefix_def split: list.splits)
  then show "length pre = 4 \<and> upper pre = str ''RGB(''"
    by (auto simp: upper_def str_def)
next
  assume a: "length pre = 4 \<and> upper pre = str ''RGB(''"
  then obtain r g b p where pre: "pre = [r, g, b, p]"
    by (auto simp: eval_nat_numeral length_Suc_conv)
  show "rgb_prefix pre"
    using a unfolding pre by (auto simp: rgb_prefix_def upper_def str_def split: if_splits)
qed

lemma rgb_prefix_take: "startswith (upper s) (str ''RGB('') \<longleftrightarrow> rgb_prefix (take 4 s)"
proof -
  have l: "length (str ''RGB('') = 4"
    by (simp add: str_def)
  have "startswith (upper s) (str ''RGB('') \<longleftrightarrow> upper (take 4 s) = str ''RGB(''"
    unfolding startswith_def l upper_def take_map ..
  moreover have "upper (take 4 s) = str ''RGB('' \<Longrightarrow> length (take 4 s) = 4"
  proof -
    assume "upper (take 4 s) = str ''RGB(''"
    then have "length (upper (take 4 s)) = 4" by (simp add: str_def)
    then show ?thesis by (simp add: upper_def)
  qed
  ultimately show ?thesis
    unfolding rgb_prefix_upper by blast
qed

lemma hash_seven: "startswith s (str ''#'') \<and> length s = 7 \<longleftrightarrow> length s = 7 \<and> spec_after_prefix (str ''#'') s \<noteq> None"
  by (auto simp: spec_after_prefix_startswith)

lemma rgb_neither:
  assumes "\<not> (length s = 7 \<and> spec_after_prefix (str ''#'') s \<noteq> None)" and "\<not> rgb_prefix (take 4 s)"
  shows "rgb e (PStr s) = Inr (0, 0, 0)"
proof (rule rgb_other)
  show "\<not> (startswith s (str ''#'') \<and> length s = 7)"
    using assms(1) unfolding hash_seven .
  show "\<not> startswith (upper s) (str ''RGB('')"
    using assms(2) unfolding rgb_prefix_take .
qed

lemma rgb_closed_prefix:
  assumes "rgb_prefix pre"
  shows "rgb e (PStr (pre @ body @ [41])) =
     (case three_integers e body of Some c \<Rightarrow> Inr c | None \<Rightarrow> Inr (0, 0, 0))"
  using assms unfolding rgb_prefix_upper by (intro rgb_closed) simp_all

section \<open>Facts about the paragraph styler\<close>

lemma run_steps_append:
  "run_steps (fs @ gs) s =
     (case run_steps fs s of (Some err, s') \<Rightarrow> (Some err, s') | (None, s') \<Rightarrow> run_steps gs s')"
  by (induction fs arbitrary: s) (auto split: prod.splits option.splits)

lemma run_steps_invariant:
  assumes "\<And>f s. f \<in> set fs \<Longrightarrow> P s \<Longrightarrow> P (snd (f s))" and "P s"
  shows "P (snd (run_steps fs s))"
  using assms
proof (induction fs arbitrary: s)
  case Nil
  then show ?case by simp
next
  case (Cons f fs)
  have "P (snd (f s))" using Cons.prems by simp
  then show ?case
    using Cons.IH [of "snd (f s)"] Cons.prems(1)
    by (cases "f s") (auto split: option.splits)
qed

lemma run_steps_preserves:
  assumes "\<And>f s. f \<in> set fs \<Longrightarrow> g (snd (f s)) = g s"
  shows "g (snd (run_steps fs s)) = g s"
  using run_steps_invariant [of fs "\<lambda>x. g x = g s" s] assms by simp

lemma run_steps_no_raise:
  assumes "\<And>f s. f \<in> set fs \<Longrightarrow> fst (f s) = None"
  shows "fst (run_steps fs s) = None"
  using assms
proof (induction fs arbitrary: s)
  case Nil
  then show ?case by simp
next
  case (Cons f fs)
  have "fst (f s) = None" using Cons.prems by simp
  then show ?case
    using Cons.IH Cons.prems by (cases "f s") auto
qed

lemma for_each_preserves:
  assumes "\<And>x. g (snd (body x)) = g x"
  shows "map g (snd (for_each body xs)) = map g xs"
proof (induction xs)
  case Nil
  show ?case by simp
next
  case (Cons x xs)
  show ?case
    using Cons assms [of x] by (cases "body x") (auto split: option.splits prod.splits)
qed

lemma for_each_no_raise:
  assumes "\<And>x. fst (body x) = None"
  shows "fst (for_each body xs) = None"
proof (induction xs)
  case Nil
  show ?case by simp
next
  case (Cons x xs)
  show ?case
    using Cons assms [of x] by (cases "body x") (auto split: option.splits prod.splits)
qed

lemma for_each_length: "length (snd (for_each body xs)) = length xs"
  by (induction xs) (auto split: option.splits prod.splits)

lemmas step_defs = when_present_def when_truthy_def assign_def assign_result_def

lemma font_steps_run_text: "f \<in> set (font_steps e spec) \<Longrightarrow> run_text (snd (f r)) = run_text r"
  by (auto simp: font_steps_def step_defs split: option.splits sum.splits)

lemma style_runs_text: "paragraph_text (snd (style_runs e spec p)) = paragraph_text p"
proof -
  have "map run_text (snd (for_each (run_steps (font_steps e spec)) (runs_or_new p))) =
      map run_text (runs_or_new p)"
    by (rule for_each_preserves) (rule run_steps_preserves, rule font_steps_run_text)
  moreover have "concat (map run_text (runs_or_new p)) = concat (map run_text (runs p))"
    by (simp add: runs_or_new_def new_run_def)
  moreover have "runs (snd (style_runs e spec p)) =
      snd (for_each (run_steps (font_steps e spec)) (runs_or_new p))"
    by (simp add: style_runs_def split: prod.splits)
  ultimately show ?thesis
    by (simp add: paragraph_text_def)
qed

lemma paragraph_steps_runs: "f \<in> set (paragraph_steps e spec) \<Longrightarrow> runs (snd (f p)) = runs p"
  by (auto simp: paragraph_steps_def set_alignment_def step_defs
      split: option.splits sum.splits pyval.splits)

lemma apply_paragraph_style_text:
  "paragraph_text (snd (apply_paragraph_style e spec p)) = paragraph_text p"
proof -
  have "paragraph_text (snd (f q)) = paragraph_text q"
    if "f \<in> set (paragraph_steps e spec @ [style_runs e spec])" for f q
    using that paragraph_steps_runs [of f e spec q] style_runs_text [of e spec q]
    by (auto simp: paragraph_text_def)
  then show ?thesis
    unfolding apply_paragraph_style_def by (rule run_steps_preserves)
qed

lemma when_present_converts:
  "converts f spec key \<Longrightarrow> fst (when_present spec key (\<lambda>v. assign_result (f v) g) s) = None"
  by (auto simp: converts_def step_defs split: option.splits sum.splits)

lemma when_present_assign: "fst (when_present spec key (\<lambda>v. assign (g v)) s) = None"
  by (simp add: step_defs split: option.splits)

lemma when_truthy_assign: "fst (when_truthy spec key (assign g) s) = None"
  by (simp add: step_defs split: option.splits)

lemma set_alignment_hashable:
  "converts (\<lambda>v. if hashable v then Inr v else Inl TypeError) spec (str ''alignment'') \<Longrightarrow>
     fst (set_alignment spec p) = None"
proof (cases "map_of spec (str ''alignment'')")
  case None
  then show ?thesis by (simp add: set_alignment_def)
next
  case (Some v)
  assume "converts (\<lambda>v. if hashable v then Inr v else Inl TypeError) spec (str ''alignment'')"
  with Some have "hashable v"
    by (auto simp: converts_def split: if_splits)
  with Some show ?thesis
    by (cases v) (simp_all add: set_alignment_def split: option.splits)
qed

lemma paragraph_steps_ok:
  assumes "spec_ok e spec" and "f \<in> set (paragraph_steps e spec)"
  shows "fst (f p) = None"
  using assms unfolding spec_ok_def paragraph_steps_def
  by (auto simp: when_present_converts when_present_assign when_truthy_assign
      set_alignment_hashable)

lemma font_steps_ok:
  assumes "spec_ok e spec" and "f \<in> set (font_steps e spec)"
  shows "fst (f r) = None"
  using assms unfolding spec_ok_def font_steps_def
  by (auto simp: when_present_converts when_present_assign)

lemma style_runs_ok:
  assumes "spec_ok e spec"
  shows "fst (style_runs e spec p) = None"
proof -
  have "fst (for_each (run_steps (font_steps e spec)) (runs_or_new p)) = None"
    by (rule for_each_no_raise) (rule run_steps_no_raise, rule font_steps_ok [OF assms])
  then show ?thesis
    by (cases "for_each (run_steps (font_steps e spec)) (runs_or_new p)") (simp add: style_runs_def)
qed

lemma apply_paragraph_style_ok:
  assumes "spec_ok e spec"
  shows "fst (apply_paragraph_style e spec p) = None"
  unfolding apply_paragraph_style_def
proof (rule run_steps_no_raise)
  fix f s
  assume "f \<in> set (paragraph_steps e spec @ [style_runs e spec])"
  then show "fst (f s) = None"
    using paragraph_steps_ok [OF assms, of f s] style_runs_ok [OF assms, of s] by auto
qed

lemma spec_ok_empty: "spec_ok e []"
  by (simp add: spec_ok_def converts_def)


text \<open>Paragraph attributes: what each statement leaves alone.\<close>

lemma style_runs_attrs:
  "alignment (snd (style_runs e spec p)) = alignment p"
  "line_spacing (snd (style_runs e spec p)) = line_spacing p"
  "space_before (snd (style_runs e spec p)) = space_before p"
  "space_after (snd (style_runs e spec p)) = space_after p"
  "left_indent (snd (style_runs e spec p)) = left_indent p"
  "first_line_indent (snd (style_runs e spec p)) = first_line_indent p"
  "keep_with_next (snd (style_runs e spec p)) = keep_with_next p"
  "keep_together (snd (style_runs e spec p)) = keep_together p"
  by (simp_all add: style_runs_def split: prod.splits)

lemmas paragraph_step_splits = option.splits sum.splits pyval.splits

lemma frame_line_spacing:
  assumes "map_of spec (str ''line_spacing'') = None"
  shows "line_spacing (snd (apply_paragraph_style e spec p)) = line_spacing p"
  unfolding apply_paragraph_style_def
proof (rule run_steps_preserves)
  fix f s
  assume "f \<in> set (paragraph_steps e spec @ [style_runs e spec])"
  then show "line_spacing (snd (f s)) = line_spacing s"
    using assms
    by (auto simp: paragraph_steps_def set_alignment_def step_defs style_runs_attrs
        split: paragraph_step_splits)
qed


lemma frame_space_before:
  assumes "map_of spec (str ''spacing_before_pt'') = None"
  shows "space_before (snd (apply_paragraph_style e spec p)) = space_before p"
  unfolding apply_paragraph_style_def
proof (rule run_steps_preserves)
  fix f s
  assume "f \<in> set (paragraph_steps e spec @ [style_runs e spec])"
  then show "space_before (snd (f s)) = space_before s"
    using assms
    by (auto simp: paragraph_steps_def set_alignment_def step_defs style_runs_attrs
        split: paragraph_step_splits)
qed

lemma frame_space_after:
  assumes "map_of spec (str ''spacing_after_pt'') = None"
  shows "space_after (snd (apply_paragraph_style e spec p)) = space_after p"
  unfolding apply_paragraph_style_def
proof (rule run_steps_preserves)
  fix f s
  assume "f \<in> set (paragraph_steps e spec @ [style_runs e spec])"
  then show "space_after (snd (f s)) = space_after s"
    using assms
    by (auto simp: paragraph_steps_def set_alignment_def step_defs style_runs_attrs
        split: paragraph_step_splits)
qed

lemma frame_left_indent:
  assumes "map_of spec (str ''indent_left_cm'') = None"
  shows "left_indent (snd (apply_paragraph_style e spec p)) = left_indent p"
  unfolding apply_paragraph_style_def
proof (rule run_steps_preserves)
  fix f s
  assume "f \<in> set (paragraph_steps e spec @ [style_runs e spec])"
  then show "left_indent (snd (f s)) = left_indent s"
    using assms
    by (auto simp: paragraph_steps_def set_alignment_def step_defs style_runs_attrs
        split: paragraph_step_splits)
qed

lemma frame_first_line_indent:
  assumes "map_of spec (str ''indent_hanging_cm'') = None"
  shows "first_line_indent (snd (apply_paragraph_style e spec p)) = first_line_indent p"
  unfolding apply_paragraph_style_def
proof (rule run_steps_preserves)
  fix f s
  assume "f \<in> set (paragraph_steps e spec @ [style_runs e spec])"
  then show "first_line_indent (snd (f s)) = first_line_indent s"
    using assms
    by (auto simp: paragraph_steps_def set_alignment_def step_defs style_runs_attrs
        split: paragraph_step_splits)
qed

lemma frame_alignment:
  assumes "\<And>a. map_of spec (str ''alignment'') = Some (PStr a) \<Longrightarrow> map_of align_map a = None"
  shows "alignment (snd (apply_paragraph_style e spec p)) = alignment p"
  unfolding apply_paragraph_style_def
proof (rule run_steps_preserves)
  fix f s
  assume "f \<in> set (paragraph_steps e spec @ [style_runs e spec])"
  then show "alignment (snd (f s)) = alignment s"
    using assms
    by (auto simp: paragraph_steps_def set_alignment_def step_defs style_runs_attrs
        split: paragraph_step_splits)
qed

lemma keep_with_next_only_set:
  "keep_with_next (snd (apply_paragraph_style e spec p)) = keep_with_next p \<or>
   (\<exists>v. map_of spec (str ''keep_with_next'') = Some v \<and> truthy v \<and>
        keep_with_next (snd (apply_paragraph_style e spec p)) = Some True)"
  unfolding apply_paragraph_style_def
proof (rule run_steps_invariant)
  fix f and s :: docx_paragraph
  assume "f \<in> set (paragraph_steps e spec @ [style_runs e spec])"
    and "keep_with_next s = keep_with_next p \<or>
      (\<exists>v. map_of spec (str ''keep_with_next'') = Some v \<and> truthy v \<and> keep_with_next s = Some True)"
  then show "keep_with_next (snd (f s)) = keep_with_next p \<or>
      (\<exists>v. map_of spec (str ''keep_with_next'') = Some v \<and> truthy v \<and>
           keep_with_next (snd (f s)) = Some True)"
    by (auto simp: paragraph_steps_def set_alignment_def step_defs style_runs_attrs
        split: paragraph_step_splits)
qed simp

lemma keep_together_only_set:
  "keep_together (snd (apply_paragraph_style e spec p)) = keep_together p \<or>
   (\<exists>v. map_of spec (str ''keep_lines_together'') = Some v \<and> truthy v \<and>
        keep_together (snd (apply_paragraph_style e spec p)) = Some True)"
  unfolding apply_paragraph_style_def
proof (rule run_steps_invariant)
  fix f and s :: docx_paragraph
  assume "f \<in> set (paragraph_steps e spec @ [style_runs e spec])"
    and "keep_together s = keep_together p \<or>
      (\<exists>v. map_of spec (str ''keep_lines_together'') = Some v \<and> truthy v \<and> keep_together s = Some True)"
  then show "keep_together (snd (f s)) = keep_together p \<or>
      (\<exists>v. map_of spec (str ''keep_lines_together'') = Some v \<and> truthy v \<and>
           keep_together (snd (f s)) = Some True)"
    by (auto simp: paragraph_steps_def set_alignment_def step_defs style_runs_attrs
        split: paragraph_step_splits)
qed simp

lemma hanging_only_negated:
  "first_line_indent (snd (apply_paragraph_style e spec p)) = first_line_indent p \<or>
   (\<exists>v n. map_of spec (str ''indent_hanging_cm'') = Some v \<and> Cm e v = Inr n \<and>
        first_line_indent (snd (apply_paragraph_style e spec p)) = Some (- n))"
  unfolding apply_paragraph_style_def
proof (rule run_steps_invariant)
  fix f and s :: docx_paragraph
  assume "f \<in> set (paragraph_steps e spec @ [style_runs e spec])"
    and "first_line_indent s = first_line_indent p \<or>
      (\<exists>v n. map_of spec (str ''indent_hanging_cm'') = Some v \<and> Cm e v = Inr n \<and>
           first_line_indent s = Some (- n))"
  then show "first_line_indent (snd (f s)) = first_line_indent p \<or>
      (\<exists>v n. map_of spec (str ''indent_hanging_cm'') = Some v \<and> Cm e v = Inr n \<and>
           first_line_indent (snd (f s)) = Some (- n))"
    by (auto simp: paragraph_steps_def set_alignment_def step_defs style_runs_attrs
        split: paragraph_step_splits)
qed simp

text \<open>The value an attribute has when nothing was raised.\<close>

lemma run_steps_at:
  assumes ok: "fst (run_steps (pre @ f # post) s) = None"
    and post: "\<And>h x. h \<in> set post \<Longrightarrow> g (snd (h x)) = g x"
  shows "\<exists>s1. fst (f s1) = None \<and> g (snd (run_steps (pre @ f # post) s)) = g (snd (f s1))"
proof -
  obtain e1 s1 where r1: "run_steps pre s = (e1, s1)" by (cases "run_steps pre s")
  obtain e2 s2 where r2: "f s1 = (e2, s2)" by (cases "f s1")
  have e1: "e1 = None"
    using ok r1 by (cases e1) (simp_all add: run_steps_append)
  have e2: "e2 = None"
    using ok r1 r2 e1 by (cases e2) (simp_all add: run_steps_append)
  have "run_steps (pre @ f # post) s = run_steps post s2"
    using r1 r2 e1 e2 by (simp add: run_steps_append)
  moreover have "g (snd (run_steps post s2)) = g s2"
    by (rule run_steps_preserves) (rule post)
  ultimately show ?thesis
    using r2 e2 by (intro exI [of _ s1]) simp
qed

lemma hanging_value:
  assumes "fst (apply_paragraph_style e spec p) = None"
    and "map_of spec (str ''indent_hanging_cm'') = Some v"
  shows "\<exists>n. Cm e v = Inr n \<and> first_line_indent (snd (apply_paragraph_style e spec p)) = Some (- n)"
proof -
  define pre where "pre = take 5 (paragraph_steps e spec)"
  define f :: "docx_paragraph step" where "f = when_present spec (str ''indent_hanging_cm'')
        (\<lambda>v. assign_result (Cm e v) (\<lambda>n p. p\<lparr>first_line_indent := Some (- n)\<rparr>))"
  define post where "post = drop 6 (paragraph_steps e spec) @ [style_runs e spec]"
  have split: "paragraph_steps e spec @ [style_runs e spec] = pre @ f # post"
    by (simp add: pre_def f_def post_def paragraph_steps_def)
  have post: "first_line_indent (snd (h x)) = first_line_indent x" if "h \<in> set post" for h x
    using that
    by (auto simp: post_def paragraph_steps_def step_defs style_runs_attrs split: option.splits)
  have ok: "fst (run_steps (pre @ f # post) p) = None"
    using assms(1) unfolding apply_paragraph_style_def split .
  have "\<exists>s1. fst (f s1) = None \<and>
      first_line_indent (snd (run_steps (pre @ f # post) p)) = first_line_indent (snd (f s1))"
  proof (rule run_steps_at)
    show "fst (run_steps (pre @ f # post) p) = None" by (rule ok)
  next
    fix h and x :: docx_paragraph
    assume "h \<in> set post"
    then show "first_line_indent (snd (h x)) = first_line_indent x" by (rule post)
  qed
  then obtain s1 where s1: "fst (f s1) = None"
    "first_line_indent (snd (apply_paragraph_style e spec p)) = first_line_indent (snd (f s1))"
    unfolding apply_paragraph_style_def split by blast
  show ?thesis
    using s1 assms(2-) unfolding f_def by (cases "Cm e v") (simp_all add: step_defs)
qed

lemma keep_with_next_value:
  assumes "fst (apply_paragraph_style e spec p) = None"
    and "map_of spec (str ''keep_with_next'') = Some v" and "truthy v"
  shows "keep_with_next (snd (apply_paragraph_style e spec p)) = Some True"
proof -
  define pre where "pre = take 6 (paragraph_steps e spec)"
  define f :: "docx_paragraph step" where "f = when_truthy spec (str ''keep_with_next'') (assign (\<lambda>p. p\<lparr>keep_with_next := Some True\<rparr>))"
  define post where "post = drop 7 (paragraph_steps e spec) @ [style_runs e spec]"
  have split: "paragraph_steps e spec @ [style_runs e spec] = pre @ f # post"
    by (simp add: pre_def f_def post_def paragraph_steps_def)
  have post: "keep_with_next (snd (h x)) = keep_with_next x" if "h \<in> set post" for h x
    using that
    by (auto simp: post_def paragraph_steps_def step_defs style_runs_attrs split: option.splits)
  have ok: "fst (run_steps (pre @ f # post) p) = None"
    using assms(1) unfolding apply_paragraph_style_def split .
  have "\<exists>s1. fst (f s1) = None \<and>
      keep_with_next (snd (run_steps (pre @ f # post) p)) = keep_with_next (snd (f s1))"
  proof (rule run_steps_at)
    show "fst (run_steps (pre @ f # post) p) = None" by (rule ok)
  next
    fix h and x :: docx_paragraph
    assume "h \<in> set post"
    then show "keep_with_next (snd (h x)) = keep_with_next x" by (rule post)
  qed
  then obtain s1 where s1: "fst (f s1) = None"
    "keep_with_next (snd (apply_paragraph_style e spec p)) = keep_with_next (snd (f s1))"
    unfolding apply_paragraph_style_def split by blast
  show ?thesis
    using s1 assms(2-) unfolding f_def by (simp add: step_defs)
qed

lemma keep_together_value:
  assumes "fst (apply_paragraph_style e spec p) = None"
    and "map_of spec (str ''keep_lines_together'') = Some v" and "truthy v"
  shows "keep_together (snd (apply_paragraph_style e spec p)) = Some True"
proof -
  define pre where "pre = take 7 (paragraph_steps e spec)"
  define f :: "docx_paragraph step" where "f = when_truthy spec (str ''keep_lines_together'') (assign (\<lambda>p. p\<lparr>keep_together := Some True\<rparr>))"
  define post where "post = drop 8 (paragraph_steps e spec) @ [style_runs e spec]"
  have split: "paragraph_steps e spec @ [style_runs e spec] = pre @ f # post"
    by (simp add: pre_def f_def post_def paragraph_steps_def)
  have post: "keep_together (snd (h x)) = keep_together x" if "h \<in> set post" for h x
    using that
    by (auto simp: post_def paragraph_steps_def step_defs style_runs_attrs split: option.splits)
  have ok: "fst (run_steps (pre @ f # post) p) = None"
    using assms(1) unfolding apply_paragraph_style_def split .
  have "\<exists>s1. fst (f s1) = None \<and>
      keep_together (snd (run_steps (pre @ f # post) p)) = keep_together (snd (f s1))"
  proof (rule run_steps_at)
    show "fst (run_steps (pre @ f # post) p) = None" by (rule ok)
  next
    fix h and x :: docx_paragraph
    assume "h \<in> set post"
    then show "keep_together (snd (h x)) = keep_together x" by (rule post)
  qed
  then obtain s1 where s1: "fst (f s1) = None"
    "keep_together (snd (apply_paragraph_style e spec p)) = keep_together (snd (f s1))"
    unfolding apply_paragraph_style_def split by blast
  show ?thesis
    using s1 assms(2-) unfolding f_def by (simp add: step_defs)
qed

lemma apply_runs:
  "runs (snd (apply_paragraph_style e spec p)) = runs p \<or>
   runs (snd (apply_paragraph_style e spec p)) =
     snd (for_each (run_steps (font_steps e spec)) (runs_or_new p))"
proof -
  obtain e1 s1 where r1: "run_steps (paragraph_steps e spec) p = (e1, s1)"
    by (cases "run_steps (paragraph_steps e spec) p")
  have "runs (snd (run_steps (paragraph_steps e spec) p)) = runs p"
    by (rule run_steps_preserves) (rule paragraph_steps_runs)
  then have s1: "runs s1 = runs p" using r1 by simp
  then have new: "runs_or_new s1 = runs_or_new p" by (simp add: runs_or_new_def)
  show ?thesis
  proof (cases e1)
    case (Some err)
    then show ?thesis
      using r1 s1 by (simp add: apply_paragraph_style_def run_steps_append)
  next
    case None
    then have "snd (apply_paragraph_style e spec p) = snd (style_runs e spec s1)"
      using r1 by (simp add: apply_paragraph_style_def run_steps_append split: prod.splits option.splits)
    then show ?thesis
      using new by (simp add: style_runs_def split: prod.splits)
  qed
qed

lemma font_frame:
  assumes "\<And>f r. f \<in> set (font_steps e spec) \<Longrightarrow> g (snd (f r)) = g r"
  shows "map g (runs (snd (apply_paragraph_style e spec p))) = map g (runs p) \<or>
         map g (runs (snd (apply_paragraph_style e spec p))) = map g (runs_or_new p)"
proof -
  have "map g (snd (for_each (run_steps (font_steps e spec)) (runs_or_new p))) = map g (runs_or_new p)"
    by (rule for_each_preserves) (rule run_steps_preserves, rule assms)
  then show ?thesis
    using apply_runs [of e spec p] by auto
qed

lemma frame_font_name:
  assumes "map_of spec (str ''font_name'') = None"
  shows "map font_name (runs (snd (apply_paragraph_style e spec p))) = map font_name (runs p) \<or>
         map font_name (runs (snd (apply_paragraph_style e spec p))) = map font_name (runs_or_new p)"
proof (rule font_frame)
  fix f and r :: run
  assume "f \<in> set (font_steps e spec)"
  then show "font_name (snd (f r)) = font_name r"
    using assms by (auto simp: font_steps_def step_defs split: option.splits sum.splits)
qed

lemma frame_font_size:
  assumes "map_of spec (str ''font_size_pt'') = None"
  shows "map font_size (runs (snd (apply_paragraph_style e spec p))) = map font_size (runs p) \<or>
         map font_size (runs (snd (apply_paragraph_style e spec p))) = map font_size (runs_or_new p)"
proof (rule font_frame)
  fix f and r :: run
  assume "f \<in> set (font_steps e spec)"
  then show "font_size (snd (f r)) = font_size r"
    using assms by (auto simp: font_steps_def step_defs split: option.splits sum.splits)
qed

lemma frame_font_bold:
  assumes "map_of spec (str ''bold'') = None"
  shows "map font_bold (runs (snd (apply_paragraph_style e spec p))) = map font_bold (runs p) \<or>
         map font_bold (runs (snd (apply_paragraph_style e spec p))) = map font_bold (runs_or_new p)"
proof (rule font_frame)
  fix f and r :: run
  assume "f \<in> set (font_steps e spec)"
  then show "font_bold (snd (f r)) = font_bold r"
    using assms by (auto simp: font_steps_def step_defs split: option.splits sum.splits)
qed

lemma frame_font_italic:
  assumes "map_of spec (str ''italic'') = None"
  shows "map font_italic (runs (snd (apply_paragraph_style e spec p))) = map font_italic (runs p) \<or>
         map font_italic (runs (snd (apply_paragraph_style e spec p))) = map font_italic (runs_or_new p)"
proof (rule font_frame)
  fix f and r :: run
  assume "f \<in> set (font_steps e spec)"
  then show "font_italic (snd (f r)) = font_italic r"
    using assms by (auto simp: font_steps_def step_defs split: option.splits sum.splits)
qed

lemma frame_font_color:
  assumes "map_of spec (str ''color'') = None"
  shows "map font_color (runs (snd (apply_paragraph_style e spec p))) = map font_color (runs p) \<or>
         map font_color (runs (snd (apply_paragraph_style e spec p))) = map font_color (runs_or_new p)"
proof (rule font_frame)
  fix f and r :: run
  assume "f \<in> set (font_steps e spec)"
  then show "font_color (snd (f r)) = font_color r"
    using assms by (auto simp: font_steps_def step_defs split: option.splits sum.splits)
qed

lemma str_eq_iff [simp]: "str a = str b \<longleftrightarrow> a = b"
  by (simp add: str_def inj_map_eq_map inj_of_char)

lemma when_present_cong:
  "map_of spec key = map_of spec' key \<Longrightarrow> when_present spec key = when_present spec' key"
  by (intro ext) (simp add: when_present_def)

lemma when_truthy_cong:
  "map_of spec key = map_of spec' key \<Longrightarrow> when_truthy spec key = when_truthy spec' key"
  by (intro ext) (simp add: when_truthy_def)

lemma apply_paragraph_style_cong:
  assumes align: "set_alignment spec = set_alignment spec'"
    and keys: "list_all (\<lambda>k. map_of spec k = map_of spec' k) (tl known_keys)"
  shows "apply_paragraph_style e spec = apply_paragraph_style e spec'"
proof -
  have k: "map_of spec (str ''line_spacing'') = map_of spec' (str ''line_spacing'')"
    "map_of spec (str ''spacing_before_pt'') = map_of spec' (str ''spacing_before_pt'')"
    "map_of spec (str ''spacing_after_pt'') = map_of spec' (str ''spacing_after_pt'')"
    "map_of spec (str ''indent_left_cm'') = map_of spec' (str ''indent_left_cm'')"
    "map_of spec (str ''indent_hanging_cm'') = map_of spec' (str ''indent_hanging_cm'')"
    "map_of spec (str ''keep_with_next'') = map_of spec' (str ''keep_with_next'')"
    "map_of spec (str ''keep_lines_together'') = map_of spec' (str ''keep_lines_together'')"
    "map_of spec (str ''font_name'') = map_of spec' (str ''font_name'')"
    "map_of spec (str ''font_size_pt'') = map_of spec' (str ''font_size_pt'')"
    "map_of spec (str ''bold'') = map_of spec' (str ''bold'')"
    "map_of spec (str ''italic'') = map_of spec' (str ''italic'')"
    "map_of spec (str ''color'') = map_of spec' (str ''color'')"
    using keys by (simp_all add: known_keys_def)
  have ps: "paragraph_steps e spec = paragraph_steps e spec'"
    unfolding paragraph_steps_def align when_present_cong [OF k(1)] when_present_cong [OF k(2)]
      when_present_cong [OF k(3)] when_present_cong [OF k(4)] when_present_cong [OF k(5)]
      when_truthy_cong [OF k(6)] when_truthy_cong [OF k(7)] by (rule refl)
  have fs: "font_steps e spec = font_steps e spec'"
    unfolding font_steps_def when_present_cong [OF k(8)] when_present_cong [OF k(9)]
      when_present_cong [OF k(10)] when_present_cong [OF k(11)] when_present_cong [OF k(12)]
    by (rule refl)
  have sr: "style_runs e spec = style_runs e spec'"
    unfolding style_runs_def [abs_def] fs by (rule refl)
  show ?thesis
    unfolding apply_paragraph_style_def ps sr by (rule refl)
qed

lemma map_of_filter_keys:
  "map_of (filter (\<lambda>(k, v). P k) xs) key = (if P key then map_of xs key else None)"
  by (induction xs) auto

lemma tl_known_keys: "k \<in> set (tl known_keys) \<Longrightarrow> k \<in> set known_keys"
  by (rule list.set_sel(2)) (simp_all add: known_keys_def)

lemma unknown_keys_ignored:
  "apply_paragraph_style e spec =
     apply_paragraph_style e (filter (\<lambda>(k, v). k \<in> set known_keys) spec)"
proof (rule apply_paragraph_style_cong)
  have "str ''alignment'' \<in> set known_keys" by (simp add: known_keys_def)
  then have "map_of (filter (\<lambda>(k, v). k \<in> set known_keys) spec) (str ''alignment'') =
      map_of spec (str ''alignment'')"
    by (simp add: map_of_filter_keys)
  then show "set_alignment spec = set_alignment (filter (\<lambda>(k, v). k \<in> set known_keys) spec)"
    unfolding set_alignment_def [abs_def] by simp
next
  show "list_all (\<lambda>k. map_of spec k = map_of (filter (\<lambda>(k, v). k \<in> set known_keys) spec) k)
      (tl known_keys)"
    unfolding list_all_iff by (auto simp: map_of_filter_keys dest: tl_known_keys)
qed

lemma unrecognized_alignment_ignored:
  assumes "map_of spec (str ''alignment'') = Some (PStr a)" and "map_of align_map a = None"
  shows "apply_paragraph_style e spec =
     apply_paragraph_style e (filter (\<lambda>(k, v). k \<noteq> str ''alignment'') spec)"
proof (rule apply_paragraph_style_cong)
  have "map_of (filter (\<lambda>(k, v). k \<noteq> str ''alignment'') spec) (str ''alignment'') = None"
    by (simp add: map_of_filter_keys)
  then show "set_alignment spec = set_alignment (filter (\<lambda>(k, v). k \<noteq> str ''alignment'') spec)"
    unfolding set_alignment_def [abs_def] using assms by simp
next
  have "list_all (\<lambda>k. k \<noteq> str ''alignment'') (tl known_keys)"
    by (simp add: known_keys_def)
  then show "list_all (\<lambda>k. map_of spec k = map_of (filter (\<lambda>(k, v). k \<noteq> str ''alignment'') spec) k)
      (tl known_keys)"
    unfolding list_all_iff by (auto simp: map_of_filter_keys)
qed

lemma for_each_skip:
  assumes "\<And>x. body x = (None, x)"
  shows "for_each body xs = (None, xs)"
  by (induction xs) (simp_all add: assms)

lemma apply_empty: "apply_paragraph_style e [] p = (None, p\<lparr>runs := runs_or_new p\<rparr>)"
proof -
  have body: "run_steps (font_steps e []) r = (None, r)" for r
    by (simp add: font_steps_def when_present_def)
  have "style_runs e [] q = (None, q\<lparr>runs := runs_or_new q\<rparr>)" for q
    by (simp add: style_runs_def for_each_skip [of "run_steps (font_steps e [])", OF body])
  then show ?thesis
    by (simp add: apply_paragraph_style_def paragraph_steps_def set_alignment_def when_present_def
        when_truthy_def)
qed

lemma no_known_key:
  assumes "list_all (\<lambda>k. map_of spec k = None) known_keys"
  shows "apply_paragraph_style e spec p = (None, p\<lparr>runs := runs_or_new p\<rparr>)"
proof -
  have a: "map_of spec (str ''alignment'') = None"
    using assms by (simp add: known_keys_def)
  have "apply_paragraph_style e spec = apply_paragraph_style e []"
  proof (rule apply_paragraph_style_cong)
    show "set_alignment spec = set_alignment []"
      unfolding set_alignment_def [abs_def] using a by simp
  next
    show "list_all (\<lambda>k. map_of spec k = map_of [] k) (tl known_keys)"
      using assms unfolding list_all_iff by (auto dest: tl_known_keys)
  qed
  then show ?thesis
    by (simp add: apply_empty)
qed

text \<open>
  The frame of the styler. Whatever it leaves behind --- \<open>p'\<close>, with the exception
  \<open>err\<close> it raised, if any --- an attribute differs from the paragraph's only where the
  record holds its field. The alignment changes only for a string that \<open>align_map\<close>
  knows; line spacing, the two spacings and the left indent are untouched when their keys
  are absent; the first-line indent is either untouched or the negation of \<open>Cm\<close> of the
  supplied \<open>indent_hanging_cm\<close>, and it is that negation whenever the key is present and
  nothing was raised; keep-with-next and keep-together are either untouched or set to true
  for a truthy value, never cleared; a font attribute of a run is untouched when its key is
  absent (a paragraph without runs gets one empty run). Keys the styler does not know are
  ignored, and so is an alignment string it does not recognise: the outcome is the one for
  the record without them, and a record with no known key is applied without an exception
  and changes no attribute.
\<close>

lemma styler_frame:
  assumes "apply_paragraph_style e spec p = (err, p')"
  shows
   "((\<forall>a. map_of spec (str ''alignment'') = Some (PStr a) \<longrightarrow> map_of align_map a = None) \<longrightarrow>
       alignment p' = alignment p) \<and>
    (map_of spec (str ''line_spacing'') = None \<longrightarrow> line_spacing p' = line_spacing p) \<and>
    (map_of spec (str ''spacing_before_pt'') = None \<longrightarrow> space_before p' = space_before p) \<and>
    (map_of spec (str ''spacing_after_pt'') = None \<longrightarrow> space_after p' = space_after p) \<and>
    (map_of spec (str ''indent_left_cm'') = None \<longrightarrow> left_indent p' = left_indent p) \<and>
    (first_line_indent p' = first_line_indent p \<or>
       (\<exists>v n. map_of spec (str ''indent_hanging_cm'') = Some v \<and> Cm e v = Inr n \<and>
          first_line_indent p' = Some (- n))) \<and>
    (err = None \<longrightarrow>
       (\<forall>v. map_of spec (str ''indent_hanging_cm'') = Some v \<longrightarrow>
          (\<exists>n. Cm e v = Inr n \<and> first_line_indent p' = Some (- n)))) \<and>
    (keep_with_next p' = keep_with_next p \<or>
       (\<exists>v. map_of spec (str ''keep_with_next'') = Some v \<and> truthy v \<and>
          keep_with_next p' = Some True)) \<and>
    (keep_together p' = keep_together p \<or>
       (\<exists>v. map_of spec (str ''keep_lines_together'') = Some v \<and> truthy v \<and>
          keep_together p' = Some True)) \<and>
    (err = None \<longrightarrow>
       (\<forall>v. map_of spec (str ''keep_with_next'') = Some v \<and> truthy v \<longrightarrow>
          keep_with_next p' = Some True) \<and>
       (\<forall>v. map_of spec (str ''keep_lines_together'') = Some v \<and> truthy v \<longrightarrow>
          keep_together p' = Some True)) \<and>
    (map_of spec (str ''font_name'') = None \<longrightarrow>
       map font_name (runs p') = map font_name (runs p) \<or>
       map font_name (runs p') = map font_name (runs_or_new p)) \<and>
    (map_of spec (str ''font_size_pt'') = None \<longrightarrow>
       map font_size (runs p') = map font_size (runs p) \<or>
       map font_size (runs p') = map font_size (runs_or_new p)) \<and>
    (map_of spec (str ''bold'') = None \<longrightarrow>
       map font_bold (runs p') = map font_bold (runs p) \<or>
       map font_bold (runs p') = map font_bold (runs_or_new p)) \<and>
    (map_of spec (str ''italic'') = None \<longrightarrow>
       map font_italic (runs p') = map font_italic (runs p) \<or>
       map font_italic (runs p') = map font_italic (runs_or_new p)) \<and>
    (map_of spec (str ''color'') = None \<longrightarrow>
       map font_color (runs p') = map font_color (runs p) \<or>
       map font_color (runs p') = map font_color (runs_or_new p)) \<and>
    apply_paragraph_style e (filter (\<lambda>(k, v). k \<in> set known_keys) spec) p = (err, p') \<and>
    (\<forall>a. map_of spec (str ''alignment'') = Some (PStr a) \<and> map_of align_map a = None \<longrightarrow>
       apply_paragraph_style e (filter (\<lambda>(k, v). k \<noteq> str ''alignment'') spec) p = (err, p')) \<and>
    (list_all (\<lambda>k. map_of spec k = None) known_keys \<longrightarrow>
       err = None \<and> p' = p\<lparr>runs := runs_or_new p\<rparr>)"
proof -
  have p': "p' = snd (apply_paragraph_style e spec p)" and err: "err = fst (apply_paragraph_style e spec p)"
    using assms by simp_all
  have c1: "(\<forall>a. map_of spec (str ''alignment'') = Some (PStr a) \<longrightarrow> map_of align_map a = None) \<longrightarrow>
       alignment p' = alignment p"
    unfolding p' using frame_alignment [of spec e p] by blast
  have c2: "map_of spec (str ''line_spacing'') = None \<longrightarrow> line_spacing p' = line_spacing p"
    unfolding p' using frame_line_spacing [of spec e p] by blast
  have c3: "map_of spec (str ''spacing_before_pt'') = None \<longrightarrow> space_before p' = space_before p"
    unfolding p' using frame_space_before [of spec e p] by blast
  have c4: "map_of spec (str ''spacing_after_pt'') = None \<longrightarrow> space_after p' = space_after p"
    unfolding p' using frame_space_after [of spec e p] by blast
  have c5: "map_of spec (str ''indent_left_cm'') = None \<longrightarrow> left_indent p' = left_indent p"
    unfolding p' using frame_left_indent [of spec e p] by blast
  have c6: "first_line_indent p' = first_line_indent p \<or>
       (\<exists>v n. map_of spec (str ''indent_hanging_cm'') = Some v \<and> Cm e v = Inr n \<and>
          first_line_indent p' = Some (- n))"
    unfolding p' by (rule hanging_only_negated)
  have c7: "err = None \<longrightarrow>
       (\<forall>v. map_of spec (str ''indent_hanging_cm'') = Some v \<longrightarrow>
          (\<exists>n. Cm e v = Inr n \<and> first_line_indent p' = Some (- n)))"
    unfolding p' err using hanging_value [of e spec p] by blast
  have c8: "keep_with_next p' = keep_with_next p \<or>
       (\<exists>v. map_of spec (str ''keep_with_next'') = Some v \<and> truthy v \<and>
          keep_with_next p' = Some True)"
    unfolding p' by (rule keep_with_next_only_set)
  have c9: "keep_together p' = keep_together p \<or>
       (\<exists>v. map_of spec (str ''keep_lines_together'') = Some v \<and> truthy v \<and>
          keep_together p' = Some True)"
    unfolding p' by (rule keep_together_only_set)
  have c10: "err = None \<longrightarrow>
       (\<forall>v. map_of spec (str ''keep_with_next'') = Some v \<and> truthy v \<longrightarrow>
          keep_with_next p' = Some True) \<and>
       (\<forall>v. map_of spec (str ''keep_lines_together'') = Some v \<and> truthy v \<longrightarrow>
          keep_together p' = Some True)"
    unfolding p' err using keep_with_next_value [of e spec p] keep_together_value [of e spec p]
    by blast
  have c11: "map_of spec (str ''font_name'') = None \<longrightarrow>
       map font_name (runs p') = map font_name (runs p) \<or>
       map font_name (runs p') = map font_name (runs_or_new p)"
    unfolding p' using frame_font_name [of spec e p] by blast
  have c12: "map_of spec (str ''font_size_pt'') = None \<longrightarrow>
       map font_size (runs p') = map font_size (runs p) \<or>
       map font_size (runs p') = map font_size (runs_or_new p)"
    unfolding p' using frame_font_size [of spec e p] by blast
  have c13: "map_of spec (str ''bold'') = None \<longrightarrow>
       map font_bold (runs p') = map font_bold (runs p) \<or>
       map font_bold (runs p') = map font_bold (runs_or_new p)"
    unfolding p' using frame_font_bold [of spec e p] by blast
  have c14: "map_of spec (str ''italic'') = None \<longrightarrow>
       map font_italic (runs p') = map font_italic (runs p) \<or>
       map font_italic (runs p') = map font_italic (runs_or_new p)"
    unfolding p' using frame_font_italic [of spec e p] by blast
  have c15: "map_of spec (str ''color'') = None \<longrightarrow>
       map font_color (runs p') = map font_color (runs p) \<or>
       map font_color (runs p') = map font_color (runs_or_new p)"
    unfolding p' using frame_font_color [of spec e p] by blast
  have c16: "apply_paragraph_style e (filter (\<lambda>(k, v). k \<in> set known_keys) spec) p = (err, p')"
    using assms unknown_keys_ignored [of e spec] by simp
  have c17: "\<forall>a. map_of spec (str ''alignment'') = Some (PStr a) \<and> map_of align_map a = None \<longrightarrow>
       apply_paragraph_style e (filter (\<lambda>(k, v). k \<noteq> str ''alignment'') spec) p = (err, p')"
    using assms unrecognized_alignment_ignored [of spec _ e] by auto
  have c18: "list_all (\<lambda>k. map_of spec k = None) known_keys \<longrightarrow>
       err = None \<and> p' = p\<lparr>runs := runs_or_new p\<rparr>"
    using assms no_known_key [of spec e p] by auto
  show ?thesis
    by (intro conjI) (fact c1 c2 c3 c4 c5 c6 c7 c8 c9 c10 c11 c12 c13 c14 c15 c16 c17 c18)+
qed

lemma sample_apply:
  "apply_paragraph_style sample_env sample_record (add_paragraph (str ''Title'')) =
     (None, (add_paragraph (str ''Title''))\<lparr>first_line_indent := Some (- 360000), keep_with_next := Some True\<rparr>)"
  by code_simp

lemma styler_frame_sample:
  "apply_paragraph_style sample_env sample_record (add_paragraph (str ''Title'')) =
     (None, (add_paragraph (str ''Title''))
        \<lparr>first_line_indent := Some (- 360000), keep_with_next := Some True\<rparr>) \<and>
   map_of sample_record (str ''spacing_before_pt'') = None \<and>
   space_before ((add_paragraph (str ''Title''))
        \<lparr>first_line_indent := Some (- 360000), keep_with_next := Some True\<rparr>) = None \<and>
   map_of sample_record (str ''indent_hanging_cm'') = Some (PInt 1) \<and>
   Cm sample_env (PInt 1) = Inr 360000 \<and>
   map_of sample_record (str ''keep_with_next'') = Some (PBool True) \<and> truthy (PBool True) \<and>
   map_of sample_record (str ''alignment'') = Some (PStr (str ''Middle'')) \<and>
   map_of align_map (str ''Middle'') = None \<and>
   map_of sample_record (str ''numbering_level'') = Some (PInt 1) \<and>
   str ''numbering_level'' \<notin> set known_keys"
proof -
  note t = styler_frame [OF sample_apply]
  have rest: "map_of sample_record (str ''spacing_before_pt'') = None \<and>
   space_before ((add_paragraph (str ''Title''))
        \<lparr>first_line_indent := Some (- 360000), keep_with_next := Some True\<rparr>) = None \<and>
   map_of sample_record (str ''indent_hanging_cm'') = Some (PInt 1) \<and>
   Cm sample_env (PInt 1) = Inr 360000 \<and>
   map_of sample_record (str ''keep_with_next'') = Some (PBool True) \<and> truthy (PBool True) \<and>
   map_of sample_record (str ''alignment'') = Some (PStr (str ''Middle'')) \<and>
   map_of align_map (str ''Middle'') = None \<and>
   map_of sample_record (str ''numbering_level'') = Some (PInt 1) \<and>
   str ''numbering_level'' \<notin> set known_keys"
    by code_simp
  show ?thesis
    using t sample_apply rest by blast
qed

text \<open>A colour of seven characters after which no hex digits stand: the styler raises.\<close>

lemma apply_non_hex_colour:
  "fst (apply_paragraph_style e [(str ''color'', PStr (str ''#GGGGGG''))] p) = Some ValueError"
proof -
  let ?spec = "[(str ''color'', PStr (str ''#GGGGGG''))]"
  have steps: "run_steps (paragraph_steps e ?spec) q = (None, q)" for q
    by (simp add: paragraph_steps_def set_alignment_def when_present_def when_truthy_def)
  have body: "run_steps (font_steps e ?spec) r = (Some ValueError, r)" for r
    by (simp add: font_steps_def when_present_def assign_result_def rgb_non_hex_raises)
  obtain r rs where rs: "runs_or_new p = r # rs"
    by (cases "runs_or_new p") (auto simp: runs_or_new_def split: if_splits)
  have "fst (style_runs e ?spec p) = Some ValueError"
    by (simp add: style_runs_def rs body)
  then show ?thesis
    by (cases "style_runs e ?spec p")
      (simp add: apply_paragraph_style_def run_steps_append steps)
qed

section \<open>Facts about the document builder\<close>


lemma detect_line_x: "detect_line e (Some (str ''x'')) rules = (str ''Normal'', str ''x'')"
proof -
  have "spec_classify isspace e rules (str ''x'') = (str ''Normal'', str ''x'')"
    by (simp add: spec_classify_def spec_normalize_def spec_chain_def spec_heading_def
        spec_numbered_def spec_bullet_def spec_token_end_def str_def isdecimal_def decimal_value_def)
  then show ?thesis
    by (simp add: detect_line_spec)
qed

lemma map_of_dict_set: "map_of (dict_set kvs k v) = (map_of kvs)(k \<mapsto> v)"
  by (induction kvs) auto

lemma sum_dict_set:
  fixes kvs :: counters
  shows "sum_list (map snd (dict_set kvs k v)) =
     sum_list (map snd kvs) + v - (case map_of kvs k of None \<Rightarrow> 0 | Some n \<Rightarrow> n)"
  by (induction kvs) auto

lemma keys_dict_set: "fst ` set (dict_set kvs k v) = insert k (fst ` set kvs)"
  by (simp add: dom_map_of_conv_image_fst [symmetric] map_of_dict_set)

lemma distinct_dict_set: "distinct (map fst kvs) \<Longrightarrow> distinct (map fst (dict_set kvs k v))"
proof (induction kvs)
  case Nil
  show ?case by simp
next
  case (Cons a kvs)
  then show ?case
    using keys_dict_set [of kvs k v] by (cases a) auto
qed

lemma sum_increment:
  "sum_list (map snd (increment counters s)) = sum_list (map snd counters) + 1"
  by (simp add: increment_def sum_dict_set split: option.splits)

lemma count_of_increment:
  "count_of (increment counters s) t = count_of counters t + (if t = s then 1 else 0)"
  by (simp add: count_of_def increment_def map_of_dict_set)

lemma keys_increment: "distinct (map fst counters) \<Longrightarrow> distinct (map fst (increment counters s))"
  by (simp add: increment_def distinct_dict_set)

lemma keys_increment_set: "fst ` set (increment counters s) = insert s (fst ` set counters)"
  by (simp add: increment_def keys_dict_set)

lemma paragraph_text_add: "paragraph_text (add_paragraph t) = t"
  by (simp add: paragraph_text_def add_paragraph_def new_run_def)

lemma rules_ok_lookup:
  assumes "rules_ok e rules"
  shows "spec_ok e (case map_of rules style_name of None \<Rightarrow> [] | Some spec \<Rightarrow> spec)"
proof (cases "map_of rules style_name")
  case None
  then show ?thesis by (simp add: spec_ok_empty)
next
  case (Some spec)
  then have "(style_name, spec) \<in> set rules" by (rule map_of_SomeD)
  then show ?thesis
    using assms Some by (auto simp: rules_ok_def list_all_iff)
qed

lemma add_styled_paragraph_ok:
  assumes "rules_ok e rules"
  shows "\<exists>p. add_styled_paragraph e t s rules (doc, counters) =
           (None, (doc @ [p], increment counters s)) \<and> paragraph_text p = t"
proof -
  let ?spec = "case map_of rules s of None \<Rightarrow> [] | Some spec \<Rightarrow> spec"
  obtain err p where a: "apply_paragraph_style e ?spec (add_paragraph t) = (err, p)"
    by (cases "apply_paragraph_style e ?spec (add_paragraph t)")
  have "err = None"
    using apply_paragraph_style_ok [OF rules_ok_lookup [OF assms], of s "add_paragraph t"] a by simp
  moreover have "paragraph_text p = t"
    using apply_paragraph_style_text [of e ?spec "add_paragraph t"] a
    by (simp add: paragraph_text_add)
  ultimately show ?thesis
    by (simp add: add_styled_paragraph_def a)
qed

lemma build_loop_ok:
  assumes "rules_ok e rules"
  shows "\<exists>ps. run_steps (map (\<lambda>line. detect_and_style_line e (Some line) rules) lines) (doc, counters) =
           (None, (doc @ ps,
                   fold (\<lambda>line c. increment c (fst (detect_line e (Some line) rules))) lines counters)) \<and>
         map paragraph_text ps = map (\<lambda>line. snd (detect_line e (Some line) rules)) lines"
proof (induction lines arbitrary: doc counters)
  case Nil
  show ?case by simp
next
  case (Cons l ls)
  obtain s t where d: "detect_line e (Some l) rules = (s, t)"
    by (cases "detect_line e (Some l) rules")
  obtain p where p: "add_styled_paragraph e t s rules (doc, counters) =
      (None, (doc @ [p], increment counters s))" "paragraph_text p = t"
    using add_styled_paragraph_ok [OF assms, of t s doc counters] by blast
  obtain ps where ps: "run_steps (map (\<lambda>line. detect_and_style_line e (Some line) rules) ls)
        (doc @ [p], increment counters s) =
      (None, ((doc @ [p]) @ ps,
              fold (\<lambda>line c. increment c (fst (detect_line e (Some line) rules))) ls (increment counters s)))"
    "map paragraph_text ps = map (\<lambda>line. snd (detect_line e (Some line) rules)) ls"
    using Cons [of "doc @ [p]" "increment counters s"] by blast
  have step: "detect_and_style_line e (Some l) rules (doc, counters) =
      (None, (doc @ [p], increment counters s))"
    by (simp add: detect_and_style_line_def d p)
  show ?case
    by (rule exI [of _ "p # ps"]) (simp add: step d p ps)
qed

lemma fold_increment_sum:
  "sum_list (map snd (fold (\<lambda>line c. increment c (f line)) lines counters)) =
     sum_list (map snd counters) + int (length lines)"
  by (induction lines arbitrary: counters) (simp_all add: sum_increment)

lemma fold_increment_count:
  "count_of (fold (\<lambda>line c. increment c (f line)) lines counters) s =
     count_of counters s + int (length (filter (\<lambda>line. f line = s) lines))"
  by (induction lines arbitrary: counters) (auto simp: count_of_increment)

lemma fold_increment_keys:
  "distinct (map fst counters) \<Longrightarrow>
     distinct (map fst (fold (\<lambda>line c. increment c (f line)) lines counters))"
  by (induction lines arbitrary: counters) (simp_all add: keys_increment)

lemma fold_increment_dom:
  "fst ` set (fold (\<lambda>line c. increment c (f line)) lines counters) = fst ` set counters \<union> f ` set lines"
proof (induction lines arbitrary: counters)
  case Nil
  show ?case by simp
next
  case (Cons l ls)
  show ?case
    by (auto simp: Cons keys_increment_set)
qed

lemma format_doc_run:
  assumes "rules_ok e rules"
  shows "\<exists>doc. format_doc e rules lines =
       Inr (doc, fold (\<lambda>line c. increment c (fst (detect_line e (Some line) rules))) lines []) \<and>
     map paragraph_text doc = map (\<lambda>line. snd (detect_line e (Some line) rules)) lines"
  using build_loop_ok [OF assms, of lines "[]" "[]"]
  unfolding format_doc_def build_output_def by auto

text \<open>
  With a rule table whose records the styler applies, the builder returns a document with
  one paragraph for every line, in the order of the lines and with the classifier's text,
  and counters whose keys are the styles met, each counting its lines; they sum to the
  number of lines.
\<close>

lemma format_doc_ok:
  assumes "rules_ok e rules"
  shows "\<exists>doc counters. format_doc e rules lines = Inr (doc, counters) \<and>
     map paragraph_text doc = map (\<lambda>line. snd (detect_line e (Some line) rules)) lines \<and>
     length doc = length lines \<and>
     sum_list (map snd counters) = int (length lines) \<and>
     distinct (map fst counters) \<and>
     fst ` set counters = (\<lambda>line. fst (detect_line e (Some line) rules)) ` set lines \<and>
     (\<forall>s. count_of counters s =
        int (length (filter (\<lambda>line. fst (detect_line e (Some line) rules) = s) lines)))"
proof -
  obtain ps where ps: "format_doc e rules lines =
      Inr (ps, fold (\<lambda>line c. increment c (fst (detect_line e (Some line) rules))) lines [])"
    "map paragraph_text ps = map (\<lambda>line. snd (detect_line e (Some line) rules)) lines"
    using format_doc_run [OF assms, of lines] by blast
  have l: "length ps = length lines"
    using arg_cong [OF ps(2), of length] by simp
  show ?thesis
    unfolding ps(1)
    using ps(2) l
      fold_increment_sum [of "\<lambda>line. fst (detect_line e (Some line) rules)" lines "[]"]
      fold_increment_count [of "\<lambda>line. fst (detect_line e (Some line) rules)" lines "[]"]
      fold_increment_keys [of "[]" "\<lambda>line. fst (detect_line e (Some line) rules)" lines]
      fold_increment_dom [of "\<lambda>line. fst (detect_line e (Some line) rules)" lines "[]"]
    by (simp add: count_of_def)
qed

lemma format_doc_empty: "format_doc e rules [] = Inr ([], [])"
  by (simp add: format_doc_def build_output_def)

text \<open>
  The built-in table is such a table, and on the lines \<open># Title\<close>, \<open>Intro text.\<close>,
  \<open>- point one\<close>, \<open>1. first item\<close> the builder gives four paragraphs with the texts
  \<open>Title\<close>, \<open>Intro text.\<close>, \<open>point one\<close>, \<open>first item\<close> and counts one
  \<open>Heading 1\<close>, two \<open>Normal\<close> and one \<open>Normal Bullet\<close>.
\<close>

lemma default_rules_ok: "rules_ok sample_env DEFAULT_STYLE_MAP"
  by (simp add: rules_ok_def DEFAULT_STYLE_MAP_def spec_ok_def converts_def str_def
      sample_env_def emu_length_def rgb_def upper_def RGBColor_def startswith_def slice_def
      rgb_try_def strip_def isspace_def py_int_def to_ascii_def skip_sign_def
      skip_base_prefix_def is_digit_def digit_value_def digits_value_def ascii_space_def Let_def)


lemma format_doc_example:
  "\<exists>doc. format_doc sample_env DEFAULT_STYLE_MAP
       [str ''# Title'', str ''Intro text.'', str ''- point one'', str ''1. first item''] =
     Inr (doc, [(str ''Heading 1'', 1), (str ''Normal'', 2), (str ''Normal Bullet'', 1)]) \<and>
   map paragraph_text doc =
     [str ''Title'', str ''Intro text.'', str ''point one'', str ''first item'']"
proof -
  have k: "str ''Normal Bullet'' \<in> fst ` set DEFAULT_STYLE_MAP"
    by (simp add: DEFAULT_STYLE_MAP_def str_def)
  have d: "detect_line sample_env (Some (str ''# Title'')) DEFAULT_STYLE_MAP =
      (str ''Heading 1'', str ''Title'')"
    "detect_line sample_env (Some (str ''Intro text.'')) DEFAULT_STYLE_MAP =
      (str ''Normal'', str ''Intro text.'')"
    "detect_line sample_env (Some (str ''- point one'')) DEFAULT_STYLE_MAP =
      (str ''Normal Bullet'', str ''point one'')"
    "detect_line sample_env (Some (str ''1. first item'')) DEFAULT_STYLE_MAP =
      (str ''Normal'', str ''first item'')"
    using k by (simp_all add: detect_line_spec spec_classify_evals)
  have c: "fold (\<lambda>line c. increment c (fst (detect_line sample_env (Some line) DEFAULT_STYLE_MAP)))
      [str ''# Title'', str ''Intro text.'', str ''- point one'', str ''1. first item''] [] =
      [(str ''Heading 1'', 1), (str ''Normal'', 2), (str ''Normal Bullet'', 1)]"
    unfolding fold_simps d fst_conv by (simp add: increment_def str_def)
  show ?thesis
    using format_doc_run [OF default_rules_ok,
        of "[str ''# Title'', str ''Intro text.'', str ''- point one'', str ''1. first item'']"]
    unfolding c by (simp add: d)
qed

lemma build_output_non_hex_colour:
  "build_output e [(str ''Normal'', [(str ''color'', PStr (str ''#GGGGGG''))])] [str ''x''] =
     (Some ValueError,
      [snd (apply_paragraph_style e [(str ''color'', PStr (str ''#GGGGGG''))] (add_paragraph (str ''x'')))],
      [])"
proof -
  obtain err p where a: "apply_paragraph_style e [(str ''color'', PStr (str ''#GGGGGG''))]
      (add_paragraph (str ''x'')) = (err, p)"
    by (cases "apply_paragraph_style e [(str ''color'', PStr (str ''#GGGGGG''))] (add_paragraph (str ''x''))")
  have err: "err = Some ValueError"
    using apply_non_hex_colour [of e "add_paragraph (str ''x'')"] a by simp
  show ?thesis
    by (simp add: build_output_def detect_and_style_line_def detect_line_x
        add_styled_paragraph_def a err)
qed

section \<open>The claims about the line classifier\<close>

text \<open>
  Claim C7, as the specification states it: normalizing a line twice equals normalizing it
  once. The source cuts exactly one leading U+FEFF, so the claim fails on a line that
  starts with two of them: the second normalization cuts the second one.
\<close>

theorem normalize_not_idempotent:
  "normalize (Some (normalize (Some [65279, 65279, 97]))) \<noteq> normalize (Some [65279, 65279, 97])"
  by (simp add: normalize_def rstrip_chars_def BOM_def)

text \<open>
  Claim C7, amended: normalizing twice equals normalizing once exactly on the lines that,
  once their trailing carriage returns and newlines are removed, do not start with two
  byte-order marks.
\<close>

theorem normalize_idempotent_iff:
  "normalize (Some (normalize line)) = normalize line \<longleftrightarrow>
     \<not> startswith (rstrip_chars [13, 10] (case line of None \<Rightarrow> [] | Some l \<Rightarrow> l)) [BOM, BOM]"
  by (rule normalize_twice_iff)

theorem normalize_idempotent_iff_witness:
  "normalize (Some (normalize (Some [65279, 97, 98, 13, 10]))) = normalize (Some [65279, 97, 98, 13, 10])"
  using normalize_idempotent_iff [of "Some [65279, 97, 98, 13, 10]"]
  by (simp add: rstrip_chars_def BOM_def)

text \<open>
  Claim C4: a normalized line that starts with one of the eight heading prefixes is given
  the heading style of that prefix, and its text is the line without the prefix, stripped
  of surrounding whitespace. (No two of the prefixes start the same line, so the order of
  the tests never decides between two of them.)
\<close>

theorem heading_prefix_classified:
  assumes "(style_name, pref) \<in> set
      [(str ''Heading 1'', str ''H1:''), (str ''Heading 1'', str ''# ''),
       (str ''Heading 2'', str ''H2:''), (str ''Heading 2'', str ''## ''),
       (str ''Heading 3'', str ''H3:''), (str ''Heading 3'', str ''### ''),
       (str ''Heading 4'', str ''H4:''), (str ''Heading 4'', str ''#### '')]"
    and "startswith (normalize line) pref"
  shows "detect_line e line rules = (style_name, strip (drop (length pref) (normalize line)))"
  using assms by (rule heading_general)

theorem heading_prefix_classified_witness:
  "startswith (normalize (Some (str ''## Scope ''))) (str ''## '') \<and>
   detect_line sample_env (Some (str ''## Scope '')) DEFAULT_STYLE_MAP = (str ''Heading 2'', str ''Scope'')"
  using heading_prefix_classified [of "str ''Heading 2''" "str ''## ''" "Some (str ''## Scope '')"
      sample_env DEFAULT_STYLE_MAP]
  by (simp add: str_def normalize_def rstrip_chars_def BOM_def strip_def isspace_def)

text \<open>
  Claim C5: a normalized line that starts with one or more digits, or with one letter,
  then a dot or a closing parenthesis, then a space, is classified \<open>Normal\<close>, and its text
  is what follows that space, stripped; nothing is put in the token's place. Such a line
  never matches a heading rule, so that condition of the claim needs no hypothesis.
\<close>

theorem numbered_item_classified:
  assumes "(ds \<noteq> [] \<and> list_all (isdecimal e) ds) \<or> (\<exists>l. ds = [l] \<and> ascii_letter l)"
    and "p = 46 \<or> p = 41"
    and "normalize line = ds @ p # 32 # rest"
  shows "detect_line e line rules = (str ''Normal'', strip rest)"
proof -
  have p: "dot_or_paren p" using assms(2) by (simp add: dot_or_paren_def)
  have w: "isspace 32" by (simp add: isspace_def)
  show ?thesis
    by (rule numbered_general [OF assms(1) p w assms(3)])
qed

theorem numbered_item_classified_witness:
  "list_all (isdecimal sample_env) (str ''12'') \<and>
   normalize (Some (str ''12) item  '')) = str ''12'' @ 41 # 32 # str ''item  '' \<and>
   detect_line sample_env (Some (str ''12) item  '')) DEFAULT_STYLE_MAP = (str ''Normal'', str ''item'')"
  using numbered_item_classified [of "str ''12''" sample_env 41 "Some (str ''12) item  '')"
      "str ''item  ''" DEFAULT_STYLE_MAP]
  by (simp add: str_def normalize_def rstrip_chars_def BOM_def strip_def isspace_def
      isdecimal_def decimal_value_def)

text \<open>
  Claim C10: the numbered-list rule takes any whitespace character after the token, not
  only a space: a normalized line that starts with digits (or one letter), a dot or a
  closing parenthesis and one whitespace character, a tab for one, is classified
  \<open>Normal\<close> with the token and that character removed.
\<close>

theorem numbered_item_any_whitespace:
  assumes "(ds \<noteq> [] \<and> list_all (isdecimal e) ds) \<or> (\<exists>l. ds = [l] \<and> ascii_letter l)"
    and "p = 46 \<or> p = 41"
    and "isspace w"
    and "normalize line = ds @ p # w # rest"
  shows "detect_line e line rules = (str ''Normal'', strip rest)"
proof -
  have p: "dot_or_paren p" using assms(2) by (simp add: dot_or_paren_def)
  show ?thesis
    by (rule numbered_general [OF assms(1) p assms(3) assms(4)])
qed

theorem numbered_item_any_whitespace_witness:
  "isspace 9 \<and> (9::nat) \<noteq> 32 \<and>
   normalize (Some (str ''3.'' @ 9 # str ''third'')) = str ''3'' @ 46 # 9 # str ''third'' \<and>
   detect_line sample_env (Some (str ''3.'' @ 9 # str ''third'')) DEFAULT_STYLE_MAP =
     (str ''Normal'', str ''third'')"
  using numbered_item_any_whitespace [of "str ''3''" sample_env 46 9
      "Some (str ''3.'' @ 9 # str ''third'')" "str ''third''" DEFAULT_STYLE_MAP]
  by (simp add: str_def normalize_def rstrip_chars_def BOM_def strip_def isspace_def
      isdecimal_def decimal_value_def)

text \<open>
  Claim C6: a normalized line that begins with a hyphen, an asterisk or U+2022 and then a
  space loses these two characters, and what is left is trimmed of surrounding whitespace;
  its style is \<open>Normal Bullet\<close> when the rule table has that key and
  \<open>List Paragraph Bullet Points\<close> otherwise. Such a line matches no heading and no
  numbered-list rule, so that condition of the claim needs no hypothesis.
\<close>

theorem bullet_item_classified:
  assumes "m = str ''- '' \<or> m = str ''* '' \<or> m = [8226, 32]"
    and "normalize line = m @ rest"
  shows "detect_line e line rules =
     (if str ''Normal Bullet'' \<in> fst ` set rules then str ''Normal Bullet''
      else str ''List Paragraph Bullet Points'', spec_trim rest)"
proof -
  have m: "m \<in> set bullet_markers"
    using assms(1) by (auto simp: bullet_markers_def str_def)
  have l: "length m = 2"
    using assms(1) by (auto simp: str_def)
  have s: "startswith (normalize line) m"
    by (simp add: assms(2) startswith_def)
  have d: "drop 2 (normalize line) = rest"
    by (simp add: assms(2) l)
  show ?thesis
    using bullet_general [OF m s, of e rules]
    by (simp add: d key_exists spec_trim_strip)
qed

theorem bullet_item_classified_witness:
  "normalize (Some sample_bullet_line) = str ''- '' @ str ''  point one  '' \<and>
   detect_line sample_env (Some sample_bullet_line) DEFAULT_STYLE_MAP =
     (str ''Normal Bullet'', str ''point one'') \<and>
   normalize (Some (str ''* two '')) = str ''* '' @ str ''two '' \<and>
   detect_line sample_env (Some (str ''* two '')) [] =
     (str ''List Paragraph Bullet Points'', str ''two'') \<and>
   normalize (Some (65279 # 8226 # 32 # 9 # str ''three'')) = [8226, 32] @ 9 # str ''three'' \<and>
   detect_line sample_env (Some (65279 # 8226 # 32 # 9 # str ''three''))
       [(str ''Normal Bullet'', [])] =
     (str ''Normal Bullet'', str ''three'')"
proof -
  have n: "normalize (Some sample_bullet_line) = str ''- '' @ str ''  point one  ''"
    "normalize (Some (str ''* two '')) = str ''* '' @ str ''two ''"
    "normalize (Some (65279 # 8226 # 32 # 9 # str ''three'')) = [8226, 32] @ 9 # str ''three''"
    by (simp_all add: normalize_def rstrip_chars_def BOM_def sample_bullet_line_def str_def)
  have k: "str ''Normal Bullet'' \<in> fst ` set DEFAULT_STYLE_MAP"
    by (simp add: DEFAULT_STYLE_MAP_def str_def)
  have t: "spec_trim (str ''  point one  '') = str ''point one''"
    "spec_trim (str ''two '') = str ''two''"
    "spec_trim (9 # str ''three'') = str ''three''"
    by (simp_all add: spec_trim_def isspace_def str_def)
  show ?thesis
    using bullet_item_classified [of "str ''- ''" "Some sample_bullet_line" "str ''  point one  ''"
        sample_env DEFAULT_STYLE_MAP]
      bullet_item_classified [of "str ''* ''" "Some (str ''* two '')" "str ''two ''" sample_env "[]"]
      bullet_item_classified [of "[8226, 32]" "Some (65279 # 8226 # 32 # 9 # str ''three'')"
        "9 # str ''three''" sample_env "[(str ''Normal Bullet'', [])]"]
    using n k t by simp
qed




section \<open>The claims about the colour resolver\<close>

text \<open>
  Claim C2 says that the resolver returns a triple for every string and never raises. The
  first branch of \<open>_rgb\<close> calls \<open>int(.., 16)\<close> outside any \<open>try\<close>: on a seven-character
  string that starts with \<open>#\<close> and whose other characters are no hex digits, the
  ValueError of \<open>int\<close> leaves the function. This is the resolver on \<open>#GGGGGG\<close>.
\<close>

theorem rgb_raises_on_non_hex: "rgb e (PStr (str ''#GGGGGG'')) = Inl ValueError"
  by (simp add: rgb_def str_def slice_def RGBColor_def int_evals)

text \<open>
  Claim C8, as the specification states it: every input that is neither of the
  six-hex-digit form nor of the form \<open>RGB(r,g,b)\<close> with three decimal integers resolves
  to black. The source compares the prefix in upper case and trims each field before
  \<open>int\<close> reads it: the input \<open>rgb( 1 , 95 , 95 )\<close> is of neither form and resolves to
  (1, 95, 95).
\<close>

theorem rgb_form_counterexample:
  "\<not> hex_form (str ''rgb( 1 , 95 , 95 )'') \<and> \<not> rgb_form (str ''rgb( 1 , 95 , 95 )'') \<and>
   rgb sample_env (PStr (str ''rgb( 1 , 95 , 95 )'')) = Inr (1, 95, 95)"
  by (simp add: hex_form_def rgb_form_def rgb_def str_def upper_def rgb_try_def strip_def
      isspace_def RGBColor_def int_evals)

text \<open>
  Claim C8, amended: the four examples resolve as stated; a \<open>#\<close> followed by six hex
  digits resolves to its three pairs; an input that begins with \<open>RGB(\<close>, each letter in
  either case, and ends with a closing parenthesis resolves to the three integers between
  them when that text splits at its commas into three fields that \<open>int\<close> reads, once
  trimmed of surrounding whitespace, as integers in 0..255, and to black when it does not;
  and an input that neither is a seven-character string beginning with \<open>#\<close> nor begins
  with \<open>RGB(\<close> in either case resolves to black.
\<close>

theorem rgb_resolution:
  "rgb e (PStr (str ''#0052A3'')) = Inr (0, 82, 163) \<and>
   rgb e (PStr (str ''RGB(1,95,95)'')) = Inr (1, 95, 95) \<and>
   rgb e (PStr (str ''Text 1'')) = Inr (0, 0, 0) \<and>
   rgb e (PStr (str ''RGB(bad)'')) = Inr (0, 0, 0) \<and>
   (hex_form s \<longrightarrow>
      rgb e (PStr s) =
        Inr (hex_pair (s ! 1) (s ! 2), hex_pair (s ! 3) (s ! 4), hex_pair (s ! 5) (s ! 6))) \<and>
   (rgb_prefix pre \<longrightarrow>
      rgb e (PStr (pre @ body @ str '')'')) =
        (case three_integers e body of Some c \<Rightarrow> Inr c | None \<Rightarrow> Inr (0, 0, 0))) \<and>
   (\<not> (length s = 7 \<and> spec_after_prefix (str ''#'') s \<noteq> None) \<and> \<not> rgb_prefix (take 4 s) \<longrightarrow>
      rgb e (PStr s) = Inr (0, 0, 0))"
proof -
  have c: "str '')'' = [41]" by (simp add: str_def)
  show ?thesis
    unfolding c
    using rgb_hex_example rgb_components_example rgb_theme_example rgb_bad_example
      rgb_hex_form [of s e] rgb_closed_prefix [of pre e body] rgb_neither [of s e]
    by blast
qed

theorem rgb_resolution_witness:
  "hex_form (str ''#0052a3'') \<and>
   rgb sample_env (PStr (str ''#0052a3'')) = Inr (0, 82, 163) \<and>
   rgb_prefix (str ''rGb('') \<and>
   three_integers sample_env (str '' 10, 20 ,30'') = Some (10, 20, 30) \<and>
   rgb sample_env (PStr (str ''rGb( 10, 20 ,30)'')) = Inr (10, 20, 30) \<and>
   three_integers sample_env (str ''1,2,300'') = None \<and>
   rgb sample_env (PStr (str ''RGB(1,2,300)'')) = Inr (0, 0, 0) \<and>
   \<not> (length (str ''#FFF'') = 7 \<and> spec_after_prefix (str ''#'') (str ''#FFF'') \<noteq> None) \<and>
   \<not> rgb_prefix (take 4 (str ''#FFF'')) \<and>
   rgb sample_env (PStr (str ''#FFF'')) = Inr (0, 0, 0)"
proof -
  have h: "hex_form (str ''#0052a3'')"
    by (simp add: hex_form_def str_def is_digit_def digit_value_def)
  have hp: "hex_pair (str ''#0052a3'' ! 1) (str ''#0052a3'' ! 2) = 0"
    "hex_pair (str ''#0052a3'' ! 3) (str ''#0052a3'' ! 4) = 82"
    "hex_pair (str ''#0052a3'' ! 5) (str ''#0052a3'' ! 6) = 163"
    by (simp_all add: hex_pair_def str_def digit_value_def)
  have p: "rgb_prefix (str ''rGb('')" "rgb_prefix (str ''RGB('')"
    by (simp_all add: rgb_prefix_def str_def)
  have t1: "three_integers sample_env (str '' 10, 20 ,30'') = Some (10, 20, 30)"
    by (simp add: three_integers_def str_def spec_trim_def isspace_def int_evals sample_env_def)
  have t2: "three_integers sample_env (str ''1,2,300'') = None"
    by (simp add: three_integers_def str_def spec_trim_def isspace_def int_evals sample_env_def)
  have a1: "str ''rGb('' @ str '' 10, 20 ,30'' @ str '')'' = str ''rGb( 10, 20 ,30)''"
    and a2: "str ''RGB('' @ str ''1,2,300'' @ str '')'' = str ''RGB(1,2,300)''"
    by (simp_all add: str_def)
  have n: "\<not> (length (str ''#FFF'') = 7 \<and> spec_after_prefix (str ''#'') (str ''#FFF'') \<noteq> None)"
    "\<not> rgb_prefix (take 4 (str ''#FFF''))"
    by (simp_all add: str_def rgb_prefix_def)
  show ?thesis
    using rgb_resolution [of sample_env "str ''#0052a3''" "str ''rGb(''" "str '' 10, 20 ,30''"]
      rgb_resolution [of sample_env "str ''#FFF''" "str ''RGB(''" "str ''1,2,300''"]
    unfolding a1 a2 hp
    using h p t1 t2 n by simp
qed

section \<open>The claims about the paragraph styler\<close>

text \<open>
  Claim C9 says that the styler sets an attribute only where the record holds its field,
  ignores the keys and the alignment strings it does not know, and never rejects a record.
  The first parts hold (\<open>styler_frame\<close>). The last does not: for the key \<open>color\<close> the
  styler calls \<open>_rgb\<close>, whose first branch has no \<open>try\<close>, so on the record
  \<open>{"color": "#GGGGGG"}\<close> the ValueError of \<open>int\<close> leaves the styler, for every paragraph.
\<close>

theorem styler_rejects_non_hex_colour:
  "fst (apply_paragraph_style e [(str ''color'', PStr (str ''#GGGGGG''))] p) = Some ValueError"
  by (rule apply_non_hex_colour)

section \<open>The claims about the document builder\<close>

text \<open>
  Claim C3 says that the builder emits one paragraph for every line and that the counters
  sum to the number of lines. With the rule table \<open>{"Normal": {"color": "#GGGGGG"}}\<close> and
  the one line \<open>x\<close>, the paragraph is appended, the styler raises on it before the counter
  is incremented, and the exception leaves the loop: no document is returned, and the
  state left behind has one paragraph and no counter.
\<close>

theorem builder_fails_on_non_hex_colour:
  "format_doc e [(str ''Normal'', [(str ''color'', PStr (str ''#GGGGGG''))])] [str ''x''] =
     Inl ValueError \<and>
   length (fst (snd (build_output e
     [(str ''Normal'', [(str ''color'', PStr (str ''#GGGGGG''))])] [str ''x'']))) = 1 \<and>
   snd (snd (build_output e
     [(str ''Normal'', [(str ''color'', PStr (str ''#GGGGGG''))])] [str ''x''])) = []"
  by (simp add: format_doc_def build_output_non_hex_colour)

end
